theory Spec2Isabelle
  imports Main
begin

section \<open>JavaScript values\<close>

text \<open>
  The values the library passes around: what a callback returns, what the store driver
  replies, what a handler throws. The numbers of the model are the integers
  (timestamps in milliseconds, reply counts) and \<^verbatim>\<open>Infinity\<close>; fractions, \<^verbatim>\<open>NaN\<close> and
  \<^verbatim>\<open>-Infinity\<close> are outside it. An \<^verbatim>\<open>Error\<close> object is its name and message, any other
  object the list of its own properties. On this type HOL equality is deep equality;
  where the source compares two such values with \<^verbatim>\<open>===\<close>, one side is always a
  primitive (a string, a number or \<^verbatim>\<open>null\<close>), and there the two coincide.
\<close>

datatype jsval =
    JUndefined
  | JNull
  | JBool bool
  | JNum int
  | JInfinity
  | JStr string
  | JArr "jsval list"
  | JObj "(string \<times> jsval) list"
  | JError string string

fun js_truthy :: "jsval \<Rightarrow> bool" where
  "js_truthy JUndefined = False"
| "js_truthy JNull = False"
| "js_truthy (JBool b) = b"
| "js_truthy (JNum n) = (n \<noteq> 0)"
| "js_truthy JInfinity = True"
| "js_truthy (JStr s) = (s \<noteq> [])"
| "js_truthy (JArr _) = True"
| "js_truthy (JObj _) = True"
| "js_truthy (JError _ _) = True"

text \<open>
  JavaScript numbers are IEEE doubles. Every integer of magnitude up to \<open>2^53\<close> is a
  double; the sum of two doubles that is a larger integer is rounded to 53 significant
  bits, to the nearest double and, halfway between two, to the one with the even
  significand. \<open>ulp u m\<close> is the spacing of the doubles around \<open>m\<close> (a power of two,
  found by doubling \<open>u\<close>). Sums stay far below the largest double.
\<close>

function ulp :: "nat \<Rightarrow> nat \<Rightarrow> nat" where
  "ulp u m = (if u = 0 \<or> m < 2 ^ 53 * u then u else ulp (2 * u) m)"
  by pat_completeness auto
termination
  by (relation "measure (\<lambda>(u, m). Suc m - u)") auto

declare ulp.simps [simp del]

definition round_double :: "int \<Rightarrow> int" where
  "round_double n =
     (if \<bar>n\<bar> \<le> 2 ^ 53 then n
      else
        let m = nat \<bar>n\<bar>;
            u = ulp 1 m;
            q = m div u;
            r = m mod u;
            q' = (if 2 * r < u \<or> (2 * r = u \<and> even q) then q else q + 1)
        in sgn n * int (q' * u))"

definition js_add :: "int \<Rightarrow> int \<Rightarrow> int" where
  "js_add a b = round_double (a + b)"

section \<open>The local cache (LazyCache, ExpiringLazyCache)\<close>

definition DEFAULT_SEPARATOR :: string where
  "DEFAULT_SEPARATOR = ''##''"

definition DEFAULT_EXPIRING_GAP :: int where
  "DEFAULT_EXPIRING_GAP = 100"

text \<open>
  \<^verbatim>\<open>keyOrKeys\<close> is a single string or an array of parts; \<^verbatim>\<open>_key\<close> joins the parts of
  an array with the separator (\<^verbatim>\<open>Array.prototype.join\<close>) and passes a string through.
\<close>

datatype keyOrKeys = Key string | Keys "string list"

fun join :: "string \<Rightarrow> string list \<Rightarrow> string" where
  "join sep [] = []"
| "join sep [p] = p"
| "join sep (p # q # ps) = p @ sep @ join sep (q # ps)"

record 'v LazyCache =
  data :: "string \<rightharpoonup> 'v"
  separator :: string

definition new_LazyCache :: "string option \<Rightarrow> 'v LazyCache" where
  "new_LazyCache sep =
     \<lparr> data = Map.empty,
       separator = (case sep of None \<Rightarrow> DEFAULT_SEPARATOR | Some s \<Rightarrow> s) \<rparr>"

definition key' :: "('v, 'z) LazyCache_scheme \<Rightarrow> keyOrKeys \<Rightarrow> string" where
  "key' c keyOrKeys =
     (case keyOrKeys of Keys parts \<Rightarrow> join (separator c) parts | Key k \<Rightarrow> k)"

definition LazyCache_has :: "('v, 'z) LazyCache_scheme \<Rightarrow> keyOrKeys \<Rightarrow> bool" where
  "LazyCache_has c keyOrKeys = (data c (key' c keyOrKeys) \<noteq> None)"

text \<open>\<^verbatim>\<open>get\<close> of a missing property is \<^verbatim>\<open>undefined\<close>: here \<open>None\<close>.\<close>

definition LazyCache_get :: "('v, 'z) LazyCache_scheme \<Rightarrow> keyOrKeys \<Rightarrow> 'v option" where
  "LazyCache_get c keyOrKeys = data c (key' c keyOrKeys)"

definition LazyCache_set ::
  "('v, 'z) LazyCache_scheme \<Rightarrow> keyOrKeys \<Rightarrow> 'v \<Rightarrow> ('v, 'z) LazyCache_scheme" where
  "LazyCache_set c keyOrKeys v = c\<lparr> data := (data c)(key' c keyOrKeys \<mapsto> v) \<rparr>"

definition LazyCache_delete ::
  "('v, 'z) LazyCache_scheme \<Rightarrow> keyOrKeys \<Rightarrow> ('v, 'z) LazyCache_scheme" where
  "LazyCache_delete c keyOrKeys = c\<lparr> data := (data c)(key' c keyOrKeys := None) \<rparr>"

definition LazyCache_clear :: "('v, 'z) LazyCache_scheme \<Rightarrow> ('v, 'z) LazyCache_scheme" where
  "LazyCache_clear c = c\<lparr> data := Map.empty \<rparr>"

text \<open>
  An entry of the expiring cache is the pair \<^verbatim>\<open>[expirationTime, value]\<close>. The expiration
  time is an integer timestamp, \<^verbatim>\<open>Infinity\<close> (a time that never comes), or one of the
  two empty values a caller may pass in its place. The gap and the query times are
  integers.
\<close>

datatype exptime = TNum int | TInfinity | TNull | TUndefined

fun exptime_val :: "exptime \<Rightarrow> jsval" where
  "exptime_val (TNum n) = JNum n"
| "exptime_val TInfinity = JInfinity"
| "exptime_val TNull = JNull"
| "exptime_val TUndefined = JUndefined"

record ExpiringLazyCache = "(exptime \<times> jsval) LazyCache" +
  expiringGap :: int

definition new_ExpiringLazyCache :: "string option \<Rightarrow> int option \<Rightarrow> ExpiringLazyCache" where
  "new_ExpiringLazyCache sep gap =
     \<lparr> data = Map.empty,
       separator = (case sep of None \<Rightarrow> DEFAULT_SEPARATOR | Some s \<Rightarrow> s),
       expiringGap = (case gap of None \<Rightarrow> DEFAULT_EXPIRING_GAP | Some g \<Rightarrow> g) \<rparr>"

text \<open>
  \<^verbatim>\<open>expirationTime && (currentTime ?? Date.now()) <= expirationTime + gap\<close>: a falsy
  expiration time is itself the result, otherwise the result is the comparison, with
  the sum computed as JavaScript computes it (\<^verbatim>\<open>Infinity + gap\<close> is \<^verbatim>\<open>Infinity\<close>, which
  no query time exceeds). \<open>now\<close> is the reading of \<^verbatim>\<open>Date.now()\<close>; a \<^verbatim>\<open>currentTime\<close>
  left out is \<open>None\<close>.
\<close>

definition isValid' :: "ExpiringLazyCache \<Rightarrow> int \<Rightarrow> exptime \<Rightarrow> int option \<Rightarrow> jsval" where
  "isValid' c now expirationTime currentTime =
     (if \<not> js_truthy (exptime_val expirationTime) then exptime_val expirationTime
      else (case expirationTime of
              TNum n \<Rightarrow>
                JBool ((case currentTime of None \<Rightarrow> now | Some t \<Rightarrow> t)
                         \<le> js_add n (expiringGap c))
            | TInfinity \<Rightarrow> JBool True
            | _ \<Rightarrow> exptime_val expirationTime))"

text \<open>\<^verbatim>\<open>const [expirationTime, value] = super.get(keyOrKeys) ?? []\<close>\<close>

definition entry_of :: "(exptime \<times> jsval) option \<Rightarrow> exptime \<times> jsval" where
  "entry_of e = (case e of None \<Rightarrow> (TUndefined, JUndefined) | Some p \<Rightarrow> p)"

definition ExpiringLazyCache_has ::
  "ExpiringLazyCache \<Rightarrow> int \<Rightarrow> keyOrKeys \<Rightarrow> int option \<Rightarrow> jsval" where
  "ExpiringLazyCache_has c now keyOrKeys currentTime =
     (if \<not> LazyCache_has c keyOrKeys then JBool False
      else isValid' c now (fst (entry_of (LazyCache_get c keyOrKeys))) currentTime)"

definition ExpiringLazyCache_get ::
  "ExpiringLazyCache \<Rightarrow> int \<Rightarrow> keyOrKeys \<Rightarrow> int option \<Rightarrow> jsval" where
  "ExpiringLazyCache_get c now keyOrKeys currentTime =
     (let (expirationTime, v) = entry_of (LazyCache_get c keyOrKeys)
      in if js_truthy (isValid' c now expirationTime currentTime) then v else JNull)"

definition ExpiringLazyCache_set ::
  "ExpiringLazyCache \<Rightarrow> keyOrKeys \<Rightarrow> exptime \<Rightarrow> jsval \<Rightarrow> ExpiringLazyCache" where
  "ExpiringLazyCache_set c keyOrKeys expirationTime v =
     LazyCache_set c keyOrKeys (expirationTime, v)"

section \<open>Errors\<close>

text \<open>
  A raised value is either a foreign value (whatever the driver, a callback or the JSON
  runtime threw) or a \<^verbatim>\<open>VError\<close> built by the wrapper: its name, the format string
  of its message with the arguments to print into it, its \<^verbatim>\<open>info\<close> properties and its
  cause.
\<close>

datatype verror =
    Thrown jsval
  | VError string string "jsval list" "(string \<times> jsval) list" "verror option"

definition VERROR_CLUSTER_NAME :: string where
  "VERROR_CLUSTER_NAME = ''RedisWrapperError''"

text \<open>
  Reading \<^verbatim>\<open>err.message\<close>: a property read on \<^verbatim>\<open>null\<close> or \<^verbatim>\<open>undefined\<close> throws a
  TypeError; an error yields its message, another object its property (or
  \<^verbatim>\<open>undefined\<close>), any other primitive has no such property.
\<close>

definition TypeError :: "string \<Rightarrow> jsval" where
  "TypeError msg = JError ''TypeError'' msg"

definition AssertionError :: "string \<Rightarrow> jsval" where
  "AssertionError msg = JError ''AssertionError'' msg"

fun js_message :: "jsval \<Rightarrow> jsval + jsval" where
  "js_message JUndefined = Inl (TypeError ''Cannot read properties of undefined'')"
| "js_message JNull = Inl (TypeError ''Cannot read properties of null'')"
| "js_message (JError name msg) = Inr (JStr msg)"
| "js_message (JObj props) =
     Inr (case map_of props ''message'' of None \<Rightarrow> JUndefined | Some m \<Rightarrow> m)"
| "js_message _ = Inr JUndefined"

fun is_Error :: "jsval \<Rightarrow> bool" where
  "is_Error (JError _ _) = True"
| "is_Error _ = False"

text \<open>
  \<^verbatim>\<open>new VError({ name, cause, info }, format, ...args)\<close>. The constructor belongs to the
  \<^verbatim>\<open>verror\<close> package: it leaves a falsy cause out, and for a cause that is neither
  falsy nor an error it throws an AssertionError itself (\<open>Inl\<close>). A \<^verbatim>\<open>VError\<close> is an
  error.
\<close>

fun new_VError ::
  "string \<Rightarrow> string \<Rightarrow> jsval list \<Rightarrow> (string \<times> jsval) list \<Rightarrow> verror option
     \<Rightarrow> jsval + verror" where
  "new_VError name fmt args info None = Inr (VError name fmt args info None)"
| "new_VError name fmt args info (Some (VError n f a i c)) =
     Inr (VError name fmt args info (Some (VError n f a i c)))"
| "new_VError name fmt args info (Some (Thrown err)) =
     (if \<not> js_truthy err then Inr (VError name fmt args info None)
      else if is_Error err then Inr (VError name fmt args info (Some (Thrown err)))
      else Inl (AssertionError ''cause is not an Error''))"

text \<open>\<^verbatim>\<open>throw new VError(...)\<close>: what is thrown, the new error or the constructor's own.\<close>

definition throw_VError ::
  "string \<Rightarrow> string \<Rightarrow> jsval list \<Rightarrow> (string \<times> jsval) list \<Rightarrow> verror option \<Rightarrow> verror" where
  "throw_VError name fmt args info cause =
     (case new_VError name fmt args info cause of
        Inl assertion \<Rightarrow> Thrown assertion
      | Inr err \<Rightarrow> err)"

section \<open>The store driver and the JSON runtime\<close>

text \<open>
  The \<^verbatim>\<open>redis\<close> package and the server behind it are not part of the library. The
  wrapper is modelled against any driver: \<open>'w\<close> is the state of the world the driver
  talks to, and every call returns the promise's outcome (\<open>Inl\<close> the rejection,
  \<open>Inr\<close> the resolved value) with the world after it. A \<^verbatim>\<open>multi()\<close> batch queues its
  commands in the client and sends them with \<^verbatim>\<open>exec\<close>.
\<close>

datatype queued = QDel string | QSet string jsval

record 'w driver =
  redis_createClient :: "'w \<Rightarrow> jsval + 'w"
  watchAsync :: "string \<Rightarrow> 'w \<Rightarrow> (jsval + jsval) \<times> 'w"
  getAsync :: "string \<Rightarrow> 'w \<Rightarrow> (jsval + string option) \<times> 'w"
  setAsync :: "string \<Rightarrow> jsval \<Rightarrow> 'w \<Rightarrow> (jsval + jsval) \<times> 'w"
  publish :: "string \<Rightarrow> jsval \<Rightarrow> 'w \<Rightarrow> (jsval + jsval) \<times> 'w"
  multi_exec :: "queued list \<Rightarrow> 'w \<Rightarrow> (jsval + jsval) \<times> 'w"

text \<open>
  \<^verbatim>\<open>JSON.stringify\<close> and \<^verbatim>\<open>JSON.parse\<close> belong to the JavaScript runtime; either may
  throw (\<open>Inl\<close>).
\<close>

record JSON =
  stringify :: "jsval \<Rightarrow> jsval + jsval"
  parse :: "jsval \<Rightarrow> jsval + jsval"

text \<open>The reply of \<^verbatim>\<open>GET\<close>: the stored string, or \<^verbatim>\<open>null\<close> for a missing key.\<close>

definition raw_val :: "string option \<Rightarrow> jsval" where
  "raw_val r = (case r of None \<Rightarrow> JNull | Some s \<Rightarrow> JStr s)"

section \<open>The module state of redisWrapper.js\<close>

datatype subscriber_command = SUBSCRIBE string | UNSUBSCRIBE string

text \<open>
  \<open>client\<close> tells whether the variable \<^verbatim>\<open>client\<close> holds a connection (its state is part
  of \<open>server\<close>); \<open>subscriberClient\<close> is \<open>None\<close> for \<^verbatim>\<open>null\<close>, otherwise the commands
  sent over the subscriber connection so far, oldest first. \<open>'h\<close> is the identity of
  a handler function, which is what \<^verbatim>\<open>===\<close> compares. \<^verbatim>\<open>messageHandlers\<close> is a plain
  object (\<^verbatim>\<open>{}\<close>) used as a dictionary from channel names to handler arrays; the map
  holds its own properties, which is all the code reads (every read is behind
  \<^verbatim>\<open>_hasMessageHandlers\<close>, a \<^verbatim>\<open>hasOwnProperty\<close> test).
\<close>

record ('w, 'h) wrapper =
  redisIsOnCF :: bool
  client :: bool
  subscriberClient :: "subscriber_command list option"
  messageHandlers :: "string \<rightharpoonup> 'h list"
  server :: 'w

text \<open>The state at module load (and after \<^verbatim>\<open>_reset\<close>); \<open>isOnCF\<close> comes from the environment.\<close>

definition reset' :: "bool \<Rightarrow> 'w \<Rightarrow> ('w, 'h) wrapper" where
  "reset' isOnCF w =
     \<lparr> redisIsOnCF = isOnCF, client = False, subscriberClient = None,
       messageHandlers = Map.empty, server = w \<rparr>"

definition hasMessageHandlers' :: "('w, 'h) wrapper \<Rightarrow> string \<Rightarrow> bool" where
  "hasMessageHandlers' s channel = (messageHandlers s channel \<noteq> None)"

text \<open>
  \<^verbatim>\<open>obj[name] = v\<close> on a plain object: the assignment creates or overwrites the own
  property \<open>name\<close>, except for the name \<^verbatim>\<open>__proto__\<close>, which \<^verbatim>\<open>Object.prototype\<close> defines
  with a setter: there the assignment replaces the prototype of the object and its own
  properties stay as they are.
\<close>

definition assign_property :: "(string \<rightharpoonup> 'v) \<Rightarrow> string \<Rightarrow> 'v \<Rightarrow> (string \<rightharpoonup> 'v)" where
  "assign_property obj name v = (if name = ''__proto__'' then obj else obj(name \<mapsto> v))"

text \<open>
  The logger is outside the library; a call to it is recorded as an entry.
  \<^verbatim>\<open>_logErrorOnEvent\<close> builds a \<^verbatim>\<open>VError\<close> around the error on Cloud Foundry, where the
  constructor may throw, and otherwise prints \<^verbatim>\<open>err.message\<close>, a property read that
  throws when \<^verbatim>\<open>err\<close> is \<^verbatim>\<open>null\<close> or \<^verbatim>\<open>undefined\<close>. \<open>messages\<close> is the format string with
  its arguments, \<open>None\<close> when the call passes none.
\<close>

datatype log_entry = LogError verror | LogWarning string "jsval list"

definition logErrorOnEvent' :: "bool \<Rightarrow> jsval \<Rightarrow> (string \<times> jsval list) option \<Rightarrow> jsval + log_entry" where
  "logErrorOnEvent' onCF err messages =
     (if onCF then
        (case (case messages of
                 Some (fmt, args) \<Rightarrow> new_VError VERROR_CLUSTER_NAME fmt args [] (Some (Thrown err))
               | None \<Rightarrow> new_VError VERROR_CLUSTER_NAME [] [] [] (Some (Thrown err))) of
           Inl assertion \<Rightarrow> Inl assertion
         | Inr verr \<Rightarrow> Inr (LogError verr))
      else
        (case js_message err of
           Inl typeError \<Rightarrow> Inl typeError
         | Inr msg \<Rightarrow> Inr (LogWarning ''error caught during event: %s'' [msg])))"

text \<open>
  \<open>created\<close> is the outcome of \<^verbatim>\<open>redis.createClient\<close> (on Cloud Foundry together with
  the lookup of the credentials), used only when \<open>input\<close> is empty.
\<close>

definition createClientBase' :: "bool \<Rightarrow> jsval + 'c \<Rightarrow> 'c option \<Rightarrow> verror + 'c" where
  "createClientBase' onCF created input =
     (case input of
        Some c \<Rightarrow> Inr c
      | None \<Rightarrow>
          if onCF then
            (case created of
               Inl err \<Rightarrow>
                 Inl (throw_VError VERROR_CLUSTER_NAME
                        ''error during create client with redis-cache service'' [] []
                        (Some (Thrown err)))
             | Inr c \<Rightarrow> Inr c)
          else
            (case created of Inl err \<Rightarrow> Inl (Thrown err) | Inr c \<Rightarrow> Inr c))"

text \<open>
  \<^verbatim>\<open>_createClient\<close> also attaches a listener for the \<^verbatim>\<open>error\<close> event of the connection,
  which runs whenever the driver emits one: \<open>client_on_error\<close> below.
\<close>

definition createClient' :: "'w driver \<Rightarrow> ('w, 'h) wrapper \<Rightarrow> verror + ('w, 'h) wrapper" where
  "createClient' D s =
     (case createClientBase' (redisIsOnCF s) (redis_createClient D (server s))
             (if client s then Some (server s) else None) of
        Inl err \<Rightarrow> Inl err
      | Inr w \<Rightarrow> Inr (s\<lparr> client := True, server := w \<rparr>))"

text \<open>
  The listener: \<^verbatim>\<open>_logErrorOnEvent(err, ...); client && client.quit(); client = null;\<close>.
  The result is what was logged, what the listener threw (if anything), and the state
  it leaves; when the logging throws, the rest does not run.
\<close>

definition client_on_error ::
  "jsval \<Rightarrow> ('w, 'h) wrapper \<Rightarrow> log_entry list \<times> jsval option \<times> ('w, 'h) wrapper" where
  "client_on_error err s =
     (case logErrorOnEvent' (redisIsOnCF s) err (Some (''error event on redis client'', [])) of
        Inl thrown \<Rightarrow> ([], Some thrown, s)
      | Inr entry \<Rightarrow> ([entry], None, s\<lparr> client := False \<rparr>))"

text \<open>
  \<^verbatim>\<open>if (!client) { try { client = _createClient(); } catch (err) { throw new VError(...) } }\<close>,
  the opening of both \<^verbatim>\<open>_clientExec\<close> and \<^verbatim>\<open>_watchedGetSet\<close>.
\<close>

definition ensure_client :: "'w driver \<Rightarrow> ('w, 'h) wrapper \<Rightarrow> verror + ('w, 'h) wrapper" where
  "ensure_client D s =
     (if \<not> client s then
        (case createClient' D s of
           Inl err \<Rightarrow>
             Inl (throw_VError VERROR_CLUSTER_NAME ''error during create client'' [] []
                    (Some err))
         | Inr s' \<Rightarrow> Inr s')
      else Inr s)"

datatype client_call = GetAsync string | SetAsync string jsval | Publish string jsval

fun functionName :: "client_call \<Rightarrow> string" where
  "functionName (GetAsync _) = ''getAsync''"
| "functionName (SetAsync _ _) = ''setAsync''"
| "functionName (Publish _ _) = ''publish''"

fun argsObject :: "client_call \<Rightarrow> jsval" where
  "argsObject (GetAsync k) = JObj [(''key'', JStr k)]"
| "argsObject (SetAsync k v) = JObj [(''key'', JStr k), (''value'', v)]"
| "argsObject (Publish ch m) = JObj [(''channel'', JStr ch), (''message'', m)]"

fun client_apply :: "'w driver \<Rightarrow> client_call \<Rightarrow> 'w \<Rightarrow> (jsval + jsval) \<times> 'w" where
  "client_apply D (GetAsync k) w =
     (case getAsync D k w of (Inl err, w') \<Rightarrow> (Inl err, w') | (Inr r, w') \<Rightarrow> (Inr (raw_val r), w'))"
| "client_apply D (SetAsync k v) w = setAsync D k v w"
| "client_apply D (Publish ch m) w = publish D ch m w"

definition clientExec' ::
  "'w driver \<Rightarrow> client_call \<Rightarrow> ('w, 'h) wrapper \<Rightarrow> (verror + jsval) \<times> ('w, 'h) wrapper" where
  "clientExec' D call s =
     (case ensure_client D s of
        Inl err \<Rightarrow> (Inl err, s)
      | Inr s1 \<Rightarrow>
          (case client_apply D call (server s1) of
             (Inl err, w) \<Rightarrow>
               (Inl (throw_VError VERROR_CLUSTER_NAME
                       ''error during redis client %s'' [JStr (functionName call)]
                       [(''functionName'', JStr (functionName call)),
                        (''argsObject'', argsObject call)]
                       (Some (Thrown err))),
                s1\<lparr> server := w \<rparr>)
           | (Inr v, w) \<Rightarrow> (Inr v, s1\<lparr> server := w \<rparr>)))"

definition get :: "'w driver \<Rightarrow> string \<Rightarrow> ('w, 'h) wrapper \<Rightarrow> (verror + jsval) \<times> ('w, 'h) wrapper" where
  "get D key s = clientExec' D (GetAsync key) s"

definition getObject ::
  "'w driver \<Rightarrow> JSON \<Rightarrow> string \<Rightarrow> ('w, 'h) wrapper \<Rightarrow> (verror + jsval) \<times> ('w, 'h) wrapper" where
  "getObject D J key s =
     (case get D key s of
        (Inl err, s') \<Rightarrow> (Inl err, s')
      | (Inr result, s') \<Rightarrow>
          if result = JNull then (Inr JNull, s')
          else (case parse J result of
                  Inl err \<Rightarrow> (Inl (Thrown err), s')
                | Inr v \<Rightarrow> (Inr v, s')))"

definition set_key ::
  "'w driver \<Rightarrow> string \<Rightarrow> jsval \<Rightarrow> ('w, 'h) wrapper \<Rightarrow> (verror + jsval) \<times> ('w, 'h) wrapper" where
  "set_key D key v s = clientExec' D (SetAsync key v) s"

definition setObject ::
  "'w driver \<Rightarrow> JSON \<Rightarrow> string \<Rightarrow> jsval \<Rightarrow> ('w, 'h) wrapper \<Rightarrow> (verror + jsval) \<times> ('w, 'h) wrapper" where
  "setObject D J key v s =
     (case stringify J v of
        Inl err \<Rightarrow> (Inl (Thrown err), s)
      | Inr valueRaw \<Rightarrow> set_key D key valueRaw s)"

definition publishMessage ::
  "'w driver \<Rightarrow> string \<Rightarrow> jsval \<Rightarrow> ('w, 'h) wrapper \<Rightarrow> (verror + jsval) \<times> ('w, 'h) wrapper" where
  "publishMessage D channel msg s = clientExec' D (Publish channel msg) s"

section \<open>Watched read-modify-write\<close>

datatype mode = RAW | OBJECT

text \<open>
  \<^verbatim>\<open>mode === MODE.RAW ? oldValueRaw : oldValueRaw === null ? null : JSON.parse(oldValueRaw)\<close>
  and its counterpart for the new value.
\<close>

definition decode_old :: "JSON \<Rightarrow> mode \<Rightarrow> string option \<Rightarrow> jsval + jsval" where
  "decode_old J m oldValueRaw =
     (if m = RAW then Inr (raw_val oldValueRaw)
      else if raw_val oldValueRaw = JNull then Inr JNull
      else parse J (raw_val oldValueRaw))"

definition encode_new :: "JSON \<Rightarrow> mode \<Rightarrow> jsval \<Rightarrow> jsval + jsval" where
  "encode_new J m newValue =
     (if m = RAW then Inr newValue
      else if newValue = JNull then Inr JNull
      else stringify J newValue)"

text \<open>
  \<^verbatim>\<open>!Array.isArray(replies) || replies.length !== 1 || replies[0] !== (doDelete ? 1 : "OK")\<close>
\<close>

definition unexpected_replies :: "bool \<Rightarrow> jsval \<Rightarrow> bool" where
  "unexpected_replies doDelete replies =
     (case replies of
        JArr [r] \<Rightarrow> r \<noteq> (if doDelete then JNum 1 else JStr ''OK'')
      | _ \<Rightarrow> True)"

text \<open>
  One pass through the body of the \<^verbatim>\<open>for\<close> loop: it returns, it throws (everything
  thrown inside the \<^verbatim>\<open>try\<close> is wrapped by its \<^verbatim>\<open>catch\<close>), or the commit was aborted
  (\<^verbatim>\<open>replies === null\<close>) and the loop goes on.
\<close>

datatype attempt_outcome = Returned jsval | Raised verror | Aborted

text \<open>What the \<^verbatim>\<open>catch\<close> block throws for \<open>err\<close>.\<close>

definition during_watched_get_set :: "string \<Rightarrow> verror \<Rightarrow> verror" where
  "during_watched_get_set key err =
     throw_VError VERROR_CLUSTER_NAME ''error during watched get set'' []
       [(''key'', JStr key)] (Some err)"

definition attempt_body ::
  "'w driver \<Rightarrow> JSON \<Rightarrow> string \<Rightarrow> (jsval \<Rightarrow> jsval + jsval) \<Rightarrow> mode \<Rightarrow> nat \<Rightarrow> nat \<Rightarrow> 'w
     \<Rightarrow> attempt_outcome \<times> 'w" where
  "attempt_body D J key newValueCallback m attempts attempt w =
     (case watchAsync D key w of
        (Inl err, w1) \<Rightarrow> (Raised (during_watched_get_set key (Thrown err)), w1)
      | (Inr _, w1) \<Rightarrow>
     (case getAsync D key w1 of
        (Inl err, w2) \<Rightarrow> (Raised (during_watched_get_set key (Thrown err)), w2)
      | (Inr oldValueRaw, w2) \<Rightarrow>
     (case decode_old J m oldValueRaw of
        Inl err \<Rightarrow> (Raised (during_watched_get_set key (Thrown err)), w2)
      | Inr oldValue \<Rightarrow>
     (case newValueCallback oldValue of
        Inl err \<Rightarrow> (Raised (during_watched_get_set key (Thrown err)), w2)
      | Inr newValue \<Rightarrow>
     (case encode_new J m newValue of
        Inl err \<Rightarrow> (Raised (during_watched_get_set key (Thrown err)), w2)
      | Inr newValueRaw \<Rightarrow>
          if raw_val oldValueRaw = newValueRaw then (Returned oldValue, w2)
          else
            let doDelete = (newValueRaw = JNull);
                clientMulti = (if doDelete then [QDel key] else [QSet key newValueRaw])
            in (case multi_exec D clientMulti w2 of
                  (Inl err, w3) \<Rightarrow> (Raised (during_watched_get_set key (Thrown err)), w3)
                | (Inr replies, w3) \<Rightarrow>
                    if replies \<noteq> JNull then
                      if unexpected_replies doDelete replies then
                        (Raised (during_watched_get_set key
                           (VError VERROR_CLUSTER_NAME
                              ''received unexpected replies from redis'' []
                              [(''key'', JStr key), (''attempt'', JNum (int attempt)),
                               (''attempts'', JNum (int attempts)), (''replies'', replies)]
                              None)), w3)
                      else (Returned newValue, w3)
                    else (Aborted, w3)))))))"

definition attempt_limit :: "string \<Rightarrow> nat \<Rightarrow> verror" where
  "attempt_limit key attempts =
     VError VERROR_CLUSTER_NAME ''reached watched get set attempt limit'' []
       [(''key'', JStr key), (''attempts'', JNum (int attempts))] None"

text \<open>\<^verbatim>\<open>for (let attempt = 1; attempt <= attempts; attempt++)\<close>, entered at \<open>attempt\<close>.\<close>

function attempt_loop ::
  "'w driver \<Rightarrow> JSON \<Rightarrow> string \<Rightarrow> (jsval \<Rightarrow> jsval + jsval) \<Rightarrow> mode \<Rightarrow> nat \<Rightarrow> nat \<Rightarrow> 'w
     \<Rightarrow> (verror + jsval) \<times> 'w" where
  "attempt_loop D J key newValueCallback m attempts attempt w =
     (if attempt \<le> attempts then
        (case attempt_body D J key newValueCallback m attempts attempt w of
           (Returned v, w') \<Rightarrow> (Inr v, w')
         | (Raised err, w') \<Rightarrow> (Inl err, w')
         | (Aborted, w') \<Rightarrow> attempt_loop D J key newValueCallback m attempts (attempt + 1) w')
      else (Inl (attempt_limit key attempts), w))"
  by pat_completeness auto
termination
  by (relation "measure (\<lambda>(D, J, key, cb, m, attempts, attempt, w). attempts + 1 - attempt)") auto

declare attempt_loop.simps [simp del]

definition watchedGetSet' ::
  "'w driver \<Rightarrow> JSON \<Rightarrow> string \<Rightarrow> (jsval \<Rightarrow> jsval + jsval) \<Rightarrow> mode \<Rightarrow> nat \<Rightarrow> ('w, 'h) wrapper
     \<Rightarrow> (verror + jsval) \<times> ('w, 'h) wrapper" where
  "watchedGetSet' D J key newValueCallback m attempts s =
     (case ensure_client D s of
        Inl err \<Rightarrow> (Inl err, s)
      | Inr s1 \<Rightarrow>
          (case attempt_loop D J key newValueCallback m attempts 1 (server s1) of
             (r, w) \<Rightarrow> (r, s1\<lparr> server := w \<rparr>)))"

text \<open>The exported functions; \<^verbatim>\<open>attempts = 10\<close> when the argument is left out.\<close>

definition watchedGetSet ::
  "'w driver \<Rightarrow> JSON \<Rightarrow> string \<Rightarrow> (jsval \<Rightarrow> jsval + jsval) \<Rightarrow> nat option \<Rightarrow> ('w, 'h) wrapper
     \<Rightarrow> (verror + jsval) \<times> ('w, 'h) wrapper" where
  "watchedGetSet D J key newValueCallback attempts s =
     watchedGetSet' D J key newValueCallback RAW
       (case attempts of None \<Rightarrow> 10 | Some n \<Rightarrow> n) s"

definition watchedGetSetObject ::
  "'w driver \<Rightarrow> JSON \<Rightarrow> string \<Rightarrow> (jsval \<Rightarrow> jsval + jsval) \<Rightarrow> nat option \<Rightarrow> ('w, 'h) wrapper
     \<Rightarrow> (verror + jsval) \<times> ('w, 'h) wrapper" where
  "watchedGetSetObject D J key newValueCallback attempts s =
     watchedGetSet' D J key newValueCallback OBJECT
       (case attempts of None \<Rightarrow> 10 | Some n \<Rightarrow> n) s"

section \<open>The handler registry\<close>

text \<open>
  A subscriber connection just created has sent nothing yet. \<^verbatim>\<open>_createSubscriber\<close> also
  attaches two listeners to it: for the \<^verbatim>\<open>message\<close> event (\<open>onMessage'\<close> below) and for
  the \<^verbatim>\<open>error\<close> event (\<open>subscriber_on_error\<close>), which run whenever the driver emits one.
\<close>

definition createSubscriber' :: "'w driver \<Rightarrow> ('w, 'h) wrapper \<Rightarrow> verror + ('w, 'h) wrapper" where
  "createSubscriber' D s =
     (case createClientBase' (redisIsOnCF s)
             (case redis_createClient D (server s) of
                Inl err \<Rightarrow> Inl err
              | Inr _ \<Rightarrow> Inr [])
             (subscriberClient s) of
        Inl err \<Rightarrow> Inl err
      | Inr c \<Rightarrow> Inr (s\<lparr> subscriberClient := Some c \<rparr>))"

text \<open>
  The \<^verbatim>\<open>error\<close> listener:
  \<^verbatim>\<open>_logErrorOnEvent(err, ...); subscriberClient.quit(); subscriberClient = null;\<close>. It
  works on the module variable, whichever connection emitted the event, and leaves
  \<^verbatim>\<open>messageHandlers\<close> as it is. The result is what was logged, what the listener threw
  (if anything), and the state it leaves: when the logging throws the rest does not
  run, and when the variable is \<^verbatim>\<open>null\<close> already, \<^verbatim>\<open>subscriberClient.quit\<close> throws.
\<close>

definition subscriber_on_error ::
  "jsval \<Rightarrow> ('w, 'h) wrapper \<Rightarrow> log_entry list \<times> jsval option \<times> ('w, 'h) wrapper" where
  "subscriber_on_error err s =
     (case logErrorOnEvent' (redisIsOnCF s) err
             (Some (''error event on redis subscriber client'', [])) of
        Inl thrown \<Rightarrow> ([], Some thrown, s)
      | Inr entry \<Rightarrow>
          (case subscriberClient s of
             None \<Rightarrow> ([entry], Some (TypeError ''Cannot read properties of null''), s)
           | Some _ \<Rightarrow> ([entry], None, s\<lparr> subscriberClient := None \<rparr>)))"

text \<open>A command sent over the subscriber connection (which exists where this is used).\<close>

definition subscriber_send :: "subscriber_command \<Rightarrow> ('w, 'h) wrapper \<Rightarrow> ('w, 'h) wrapper" where
  "subscriber_send cmd s =
     s\<lparr> subscriberClient :=
          (case subscriberClient s of None \<Rightarrow> None | Some sent \<Rightarrow> Some (sent @ [cmd])) \<rparr>"

definition registerMessageHandler ::
  "'w driver \<Rightarrow> string \<Rightarrow> 'h \<Rightarrow> ('w, 'h) wrapper \<Rightarrow> verror + ('w, 'h) wrapper" where
  "registerMessageHandler D channel handler s =
     (case (if subscriberClient s = None then
              (case createSubscriber' D s of
                 Inl err \<Rightarrow>
                   Inl (throw_VError VERROR_CLUSTER_NAME ''error during create subscriber'' [] []
                          (Some err))
               | Inr s' \<Rightarrow> Inr s')
            else Inr s) of
        Inl err \<Rightarrow> Inl err
      | Inr s1 \<Rightarrow>
          (case messageHandlers s1 channel of
             None \<Rightarrow>
               Inr (subscriber_send (SUBSCRIBE channel)
                      (s1\<lparr> messageHandlers :=
                             assign_property (messageHandlers s1) channel [handler] \<rparr>))
           | Some handlers \<Rightarrow>
               Inr (s1\<lparr> messageHandlers :=
                          (messageHandlers s1)(channel \<mapsto> handlers @ [handler]) \<rparr>)))"

text \<open>\<^verbatim>\<open>Array.prototype.findIndex\<close>: the first index that satisfies \<open>P\<close>, or \<open>-1\<close>.\<close>

fun findIndex :: "('a \<Rightarrow> bool) \<Rightarrow> 'a list \<Rightarrow> int" where
  "findIndex P [] = -1"
| "findIndex P (x # xs) =
     (if P x then 0 else (let i = findIndex P xs in if i < 0 then -1 else i + 1))"

text \<open>
  \<^verbatim>\<open>Array.prototype.splice(start, deleteCount)\<close>, the array that is left: a negative
  \<open>start\<close> counts from the end, and both numbers are clamped to the array.
\<close>

definition splice :: "int \<Rightarrow> int \<Rightarrow> 'a list \<Rightarrow> 'a list" where
  "splice start deleteCount xs =
     (let len = int (length xs);
          actualStart = (if start < 0 then max (len + start) 0 else min start len);
          actualDeleteCount = min (max deleteCount 0) (len - actualStart)
      in take (nat actualStart) xs @ drop (nat (actualStart + actualDeleteCount)) xs)"

definition removeMessageHandler :: "string \<Rightarrow> 'h \<Rightarrow> ('w, 'h) wrapper \<Rightarrow> ('w, 'h) wrapper" where
  "removeMessageHandler channel handler s =
     (if subscriberClient s = None \<or> \<not> hasMessageHandlers' s channel then s
      else
        (case messageHandlers s channel of
           None \<Rightarrow> s
         | Some handlers \<Rightarrow>
             let index = findIndex (\<lambda>messageHandler. messageHandler = handler) handlers;
                 handlers' = splice index 1 handlers
             in if length handlers' = 0 then
                  subscriber_send (UNSUBSCRIBE channel)
                    (s\<lparr> messageHandlers := (messageHandlers s)(channel := None) \<rparr>)
                else s\<lparr> messageHandlers := (messageHandlers s)(channel \<mapsto> handlers') \<rparr>))"

definition removeAllMessageHandlers :: "string \<Rightarrow> ('w, 'h) wrapper \<Rightarrow> ('w, 'h) wrapper" where
  "removeAllMessageHandlers channel s =
     (if subscriberClient s = None \<or> \<not> hasMessageHandlers' s channel then s
      else subscriber_send (UNSUBSCRIBE channel)
             (s\<lparr> messageHandlers := (messageHandlers s)(channel := None) \<rparr>))"

text \<open>
  A run of the registry from a given state: calls of the three exported functions and
  \<^verbatim>\<open>error\<close> events on the subscriber connection, in the order in which they happen. A
  \<^verbatim>\<open>registerMessageHandler\<close> that throws leaves the state as it was.
\<close>

datatype 'h registry_call =
    Register string 'h
  | Remove string 'h
  | RemoveAll string
  | SubscriberError jsval

fun registry_step :: "'w driver \<Rightarrow> ('w, 'h) wrapper \<Rightarrow> 'h registry_call \<Rightarrow> ('w, 'h) wrapper" where
  "registry_step D s (Register channel handler) =
     (case registerMessageHandler D channel handler s of Inl _ \<Rightarrow> s | Inr s' \<Rightarrow> s')"
| "registry_step D s (Remove channel handler) = removeMessageHandler channel handler s"
| "registry_step D s (RemoveAll channel) = removeAllMessageHandlers channel s"
| "registry_step D s (SubscriberError err) = snd (snd (subscriber_on_error err s))"

definition registry_run ::
  "'w driver \<Rightarrow> ('w, 'h) wrapper \<Rightarrow> 'h registry_call list \<Rightarrow> ('w, 'h) wrapper" where
  "registry_run D s calls = foldl (registry_step D) s calls"

section \<open>Message dispatch\<close>

text \<open>
  A handler is an opaque function: \<open>call h message\<close> is \<open>None\<close> when \<^verbatim>\<open>await handler(message)\<close>
  completes and \<open>Some err\<close> when it throws or rejects with \<open>err\<close>; \<open>hname h\<close> is
  \<^verbatim>\<open>handler.name\<close>. The mapped function runs for one handler: what it logs, and the
  rejection of its promise, if any.
\<close>

definition deliver ::
  "bool \<Rightarrow> ('h \<Rightarrow> jsval \<Rightarrow> jsval option) \<Rightarrow> ('h \<Rightarrow> string) \<Rightarrow> string \<Rightarrow> jsval \<Rightarrow> 'h
     \<Rightarrow> log_entry list \<times> jsval option" where
  "deliver onCF call hname incomingChannel message handler =
     (case call handler message of
        None \<Rightarrow> ([], None)
      | Some err \<Rightarrow>
          (case logErrorOnEvent' onCF err
                  (Some (''error during message handler %O'',
                         [JObj [(''handler'', JStr (hname handler)),
                                (''channel'', JStr incomingChannel)]])) of
             Inl thrown \<Rightarrow> ([], Some thrown)
           | Inr entry \<Rightarrow> ([entry], None)))"

text \<open>
  What \<^verbatim>\<open>_onMessage\<close> does: the handlers invoked, each with the message it received
  (\<^verbatim>\<open>handlers.map\<close> starts every one of them before any completes), the log entries
  written, and the rejection of the returned promise, if any (\<^verbatim>\<open>Promise.all\<close> rejects
  with the first rejection among the mapped promises, taken here in list order).
\<close>

record 'h dispatch =
  invoked :: "('h \<times> jsval) list"
  logged :: "log_entry list"
  rejected :: "jsval option"

definition first_rejection :: "jsval option list \<Rightarrow> jsval option" where
  "first_rejection rs = (case filter (\<lambda>r. r \<noteq> None) rs of [] \<Rightarrow> None | r # _ \<Rightarrow> r)"

definition onMessage' ::
  "('h \<Rightarrow> jsval \<Rightarrow> jsval option) \<Rightarrow> ('h \<Rightarrow> string) \<Rightarrow> ('w, 'h) wrapper \<Rightarrow> string \<Rightarrow> jsval
     \<Rightarrow> 'h dispatch" where
  "onMessage' call hname s incomingChannel message =
     (if \<not> hasMessageHandlers' s incomingChannel then
        \<lparr> invoked = [], logged = [], rejected = None \<rparr>
      else
        (case messageHandlers s incomingChannel of
           None \<Rightarrow> \<lparr> invoked = [], logged = [], rejected = None \<rparr>
         | Some handlers \<Rightarrow>
             let results = map (deliver (redisIsOnCF s) call hname incomingChannel message) handlers
             in \<lparr> invoked = map (\<lambda>handler. (handler, message)) handlers,
                  logged = concat (map fst results),
                  rejected = first_rejection (map snd results) \<rparr>))"

section \<open>A reference store\<close>

text \<open>
  The behaviour of a healthy Redis server and driver on the commands the wrapper sends,
  for the claims that speak of the stored data. The keyspace maps keys to strings.
  \<open>watched\<close> and \<open>dirty\<close> are the transaction state of the command connection: the keys
  under \<^verbatim>\<open>WATCH\<close>, and whether one of them was written since. \<open>others\<close> is the traffic
  of the other clients: its first element lists the writes (a key and its new value,
  \<open>None\<close> for a delete) that reach the server before the wrapper's next command, the
  second those before the command after that, and so on. A new command connection
  starts with no key under watch.
\<close>

record redis =
  store :: "string \<rightharpoonup> string"
  watched :: "string list"
  dirty :: bool
  others :: "(string \<times> string option) list list"

definition redis_write :: "redis \<Rightarrow> string \<times> string option \<Rightarrow> redis" where
  "redis_write w kv =
     w\<lparr> store := (store w)(fst kv := snd kv),
        dirty := (dirty w \<or> fst kv \<in> set (watched w)) \<rparr>"

definition arrive :: "redis \<Rightarrow> redis" where
  "arrive w =
     (case others w of
        [] \<Rightarrow> w
      | batch # rest \<Rightarrow> (foldl redis_write w batch)\<lparr> others := rest \<rparr>)"

fun redis_queued :: "redis \<Rightarrow> queued \<Rightarrow> jsval \<times> redis" where
  "redis_queued w (QDel k) =
     (JNum (if store w k = None then 0 else 1), redis_write w (k, None))"
| "redis_queued w (QSet k (JStr v)) = (JStr ''OK'', redis_write w (k, Some v))"
| "redis_queued w (QSet k _) =
     (JError ''ReplyError'' ''value is not a string'', w)"

fun redis_transaction :: "redis \<Rightarrow> queued list \<Rightarrow> jsval list \<times> redis" where
  "redis_transaction w [] = ([], w)"
| "redis_transaction w (q # qs) =
     (case redis_queued w q of
        (reply, w1) \<Rightarrow>
          (case redis_transaction w1 qs of (replies, w2) \<Rightarrow> (reply # replies, w2)))"

definition redis_watch :: "string \<Rightarrow> redis \<Rightarrow> (jsval + jsval) \<times> redis" where
  "redis_watch k w = (let w1 = arrive w in (Inr (JStr ''OK''), w1\<lparr> watched := k # watched w1 \<rparr>))"

definition redis_get :: "string \<Rightarrow> redis \<Rightarrow> (jsval + string option) \<times> redis" where
  "redis_get k w = (let w1 = arrive w in (Inr (store w1 k), w1))"

definition redis_set :: "string \<Rightarrow> jsval \<Rightarrow> redis \<Rightarrow> (jsval + jsval) \<times> redis" where
  "redis_set k v w =
     (let w1 = arrive w
      in case v of
           JStr str \<Rightarrow> (Inr (JStr ''OK''), redis_write w1 (k, Some str))
         | _ \<Rightarrow> (Inl (JError ''ReplyError'' ''value is not a string''), w1))"

definition redis_publish :: "string \<Rightarrow> jsval \<Rightarrow> redis \<Rightarrow> (jsval + jsval) \<times> redis" where
  "redis_publish ch msg w = (Inr (JNum 0), arrive w)"

definition redis_exec :: "queued list \<Rightarrow> redis \<Rightarrow> (jsval + jsval) \<times> redis" where
  "redis_exec qs w =
     (let w1 = arrive w
      in if dirty w1 then (Inr JNull, w1\<lparr> watched := [], dirty := False \<rparr>)
         else (case redis_transaction w1 qs of
                 (replies, w2) \<Rightarrow> (Inr (JArr replies), w2\<lparr> watched := [], dirty := False \<rparr>)))"

definition Redis :: "redis driver" where
  "Redis =
     \<lparr> redis_createClient = (\<lambda>w. Inr (w\<lparr> watched := [], dirty := False \<rparr>)),
       watchAsync = redis_watch,
       getAsync = redis_get,
       setAsync = redis_set,
       publish = redis_publish,
       multi_exec = redis_exec \<rparr>"

section \<open>Auxiliary notions for the statements and proofs\<close>

text \<open>
  The thrown values that \<^verbatim>\<open>_logErrorOnEvent\<close> logs without throwing itself: on Cloud
  Foundry the falsy ones and the errors, elsewhere all but \<^verbatim>\<open>null\<close> and \<^verbatim>\<open>undefined\<close>.
\<close>

definition loggable :: "bool \<Rightarrow> jsval \<Rightarrow> bool" where
  "loggable onCF err =
     (if onCF then \<not> js_truthy err \<or> is_Error err else err \<noteq> JNull \<and> err \<noteq> JUndefined)"

text \<open>The commands sent over the subscriber connection so far (none without a connection).\<close>

definition sent_of :: "('w, 'h) wrapper \<Rightarrow> subscriber_command list" where
  "sent_of s = (case subscriberClient s of None \<Rightarrow> [] | Some sent \<Rightarrow> sent)"

text \<open>
  The world after \<open>n\<close> passes through the loop body, starting with pass number
  \<open>attempt\<close>, each of which ended with an aborted commit; \<open>None\<close> when one of them
  ended otherwise.
\<close>

fun aborted_attempts ::
  "'w driver \<Rightarrow> JSON \<Rightarrow> string \<Rightarrow> (jsval \<Rightarrow> jsval + jsval) \<Rightarrow> mode \<Rightarrow> nat \<Rightarrow> nat \<Rightarrow> nat \<Rightarrow> 'w
     \<Rightarrow> 'w option" where
  "aborted_attempts D J key cb m attempts 0 attempt w = Some w"
| "aborted_attempts D J key cb m attempts (Suc n) attempt w =
     (case attempt_body D J key cb m attempts attempt w of
        (Aborted, w') \<Rightarrow> aborted_attempts D J key cb m attempts n (Suc attempt) w'
      | _ \<Rightarrow> None)"

text \<open>Two worlds of the reference store with the same keyspace and the same traffic to come.\<close>

definition same_data :: "redis \<Rightarrow> redis \<Rightarrow> bool" where
  "same_data w w' = (store w = store w' \<and> others w = others w')"

text \<open>
  Concrete inputs for running the model: a store with one key and no other client, the
  same with the key holding the text \<^verbatim>\<open>null\<close> (what \<^verbatim>\<open>setObject(key, null)\<close> stores), a
  store whose other clients write the key while each of two callbacks runs, a driver
  whose commit answers with an empty reply array, and the JSON runtime restricted to
  the three literals (it agrees with \<^verbatim>\<open>JSON.stringify\<close> and \<^verbatim>\<open>JSON.parse\<close> on \<^verbatim>\<open>null\<close>,
  \<^verbatim>\<open>true\<close> and \<^verbatim>\<open>false\<close> and refuses everything else).
\<close>

definition quiet_store :: redis where
  "quiet_store = \<lparr> store = [''toggle'' \<mapsto> ''true''], watched = [], dirty = False, others = [] \<rparr>"

definition null_store :: redis where
  "null_store = \<lparr> store = [''toggle'' \<mapsto> ''null''], watched = [], dirty = False, others = [] \<rparr>"

definition busy_store :: redis where
  "busy_store =
     \<lparr> store = [''toggle'' \<mapsto> ''true''], watched = [], dirty = False,
       others = [[], [], [(''toggle'', Some ''x'')], [], [], [(''toggle'', Some ''y'')]] \<rparr>"

definition quiet_start :: "(redis, string) wrapper" where
  "quiet_start = reset' False quiet_store"

definition null_start :: "(redis, string) wrapper" where
  "null_start = reset' False null_store"

definition busy_start :: "(redis, string) wrapper" where
  "busy_start = reset' False busy_store"

definition garbling_driver :: "redis driver" where
  "garbling_driver = Redis\<lparr> multi_exec := (\<lambda>qs w. (Inr (JArr []), w)) \<rparr>"

definition json_literals :: JSON where
  "json_literals =
     \<lparr> stringify = (\<lambda>v. if v = JNull then Inr (JStr ''null'')
                        else if v = JBool True then Inr (JStr ''true'')
                        else if v = JBool False then Inr (JStr ''false'')
                        else Inl (TypeError ''not a literal'')),
       parse = (\<lambda>t. if t = JStr ''null'' then Inr JNull
                    else if t = JStr ''true'' then Inr (JBool True)
                    else if t = JStr ''false'' then Inr (JBool False)
                    else Inl (TypeError ''not a literal'')) \<rparr>"

section \<open>The local cache: validity of entries\<close>

lemma round_double_exact: "\<bar>n\<bar> \<le> 2 ^ 53 \<Longrightarrow> round_double n = n"
  by (simp add: round_double_def)

lemma js_add_exact: "\<bar>a + b\<bar> \<le> 2 ^ 53 \<Longrightarrow> js_add a b = a + b"
  by (simp add: js_add_def round_double_exact)

lemma key'_LazyCache_set [simp]: "key' (LazyCache_set c k x) k' = key' c k'"
  by (cases k') (simp_all add: key'_def LazyCache_set_def)

lemma LazyCache_get_set: "LazyCache_get (LazyCache_set c k x) k = Some x"
  unfolding LazyCache_get_def key'_LazyCache_set by (simp add: LazyCache_set_def)

lemma LazyCache_has_set: "LazyCache_has (LazyCache_set c k x) k"
  unfolding LazyCache_has_def key'_LazyCache_set by (simp add: LazyCache_set_def)

lemma expiringGap_set [simp]: "expiringGap (ExpiringLazyCache_set c k e v) = expiringGap c"
  by (simp add: ExpiringLazyCache_set_def LazyCache_set_def)

lemma stored_entry: "LazyCache_get (ExpiringLazyCache_set c k e v) k = Some (e, v)"
  by (simp add: ExpiringLazyCache_set_def LazyCache_get_set)

lemma isValid'_set [simp]:
  "isValid' (ExpiringLazyCache_set c k e v) now e' T = isValid' c now e' T"
  by (cases e') (simp_all add: isValid'_def)

lemma isValid'_truthy:
  "js_truthy (isValid' c now e T) =
     (js_truthy (exptime_val e) \<and>
      (case e of
         TNum n \<Rightarrow> (case T of None \<Rightarrow> now | Some t \<Rightarrow> t) \<le> js_add n (expiringGap c)
       | TInfinity \<Rightarrow> True
       | _ \<Rightarrow> False))"
  by (cases e) (simp_all add: isValid'_def)

lemma has_entry:
  fixes c :: ExpiringLazyCache
  assumes "LazyCache_get c k = Some (e, v)"
  shows "ExpiringLazyCache_has c now k T = isValid' c now e T"
  using assms
  by (simp add: ExpiringLazyCache_has_def LazyCache_has_def LazyCache_get_def entry_of_def)

lemma get_entry:
  fixes c :: ExpiringLazyCache
  assumes "LazyCache_get c k = Some (e, v)"
  shows "ExpiringLazyCache_get c now k T = (if js_truthy (isValid' c now e T) then v else JNull)"
  using assms by (simp add: ExpiringLazyCache_get_def entry_of_def)

lemma has_absent:
  fixes c :: ExpiringLazyCache
  assumes "LazyCache_get c k = None"
  shows "ExpiringLazyCache_has c now k T = JBool False"
  using assms by (simp add: ExpiringLazyCache_has_def LazyCache_has_def LazyCache_get_def)

lemma get_absent:
  fixes c :: ExpiringLazyCache
  assumes "LazyCache_get c k = None"
  shows "ExpiringLazyCache_get c now k T = JNull"
  using assms by (simp add: ExpiringLazyCache_get_def entry_of_def isValid'_def)

lemma has_get_agree:
  fixes c :: ExpiringLazyCache
  shows "ExpiringLazyCache_get c now k T =
           (if js_truthy (ExpiringLazyCache_has c now k T)
            then snd (entry_of (LazyCache_get c k)) else JNull)"
proof (cases "LazyCache_get c k")
  case None
  then show ?thesis by (simp add: has_absent get_absent)
next
  case (Some p)
  obtain e v where "p = (e, v)" by (cases p)
  with Some show ?thesis by (simp add: has_entry get_entry entry_of_def)
qed

lemma ulp_example:
  "ulp (Suc 0) 9007199254740995 = 2" "ulp (Suc 0) 9007199254740997 = 2"
  by (simp_all add: ulp.simps)

lemma js_add_example:
  "js_add 9007199254740994 1 = 9007199254740996"
  "js_add 9007199254740996 1 = 9007199254740996"
  by (simp_all add: js_add_def round_double_def ulp_example Let_def)

text \<open>
  Claim C7, as stated, fails where the sums leave the range in which doubles are exact.
  With a gap of 1 and \<open>t = 9007199254740994\<close> (\<open>2^53 + 2\<close>), the sum \<open>t + gap\<close> is
  halfway between two doubles and is rounded up to \<open>9007199254740996\<close>, and adding 1 to
  that is rounded back to it: the query time \<open>t + gap + 1\<close> is \<open>9007199254740996\<close>,
  at which the entry is still valid, and \<^verbatim>\<open>get\<close> returns the value, not \<^verbatim>\<open>null\<close>.
\<close>

theorem expiring_entry_rounding_counterexample:
  "js_add (js_add 9007199254740994 1) 1 = 9007199254740996
   \<and> ExpiringLazyCache_get
       (ExpiringLazyCache_set (new_ExpiringLazyCache None (Some 1)) (Key ''k'')
          (TNum 9007199254740994) (JStr ''v''))
       0 (Key ''k'') (Some 9007199254740996) = JStr ''v''
   \<and> ExpiringLazyCache_get
       (ExpiringLazyCache_set (new_ExpiringLazyCache None (Some 1)) (Key ''k'')
          (TNum 9007199254740994) (JStr ''v''))
       0 (Key ''k'') (Some 9007199254740996) \<noteq> JNull"
  by (simp add: get_entry [OF stored_entry] isValid'_truthy js_add_example
        new_ExpiringLazyCache_def)

text \<open>
  Claim C7, amended. For every entry \<^verbatim>\<open>[e, v]\<close> of an expiring cache and every query
  time \<open>T\<close> (the \<^verbatim>\<open>currentTime\<close> passed, or the clock when none is passed), \<^verbatim>\<open>has\<close> answers
  with a truthy value, and \<^verbatim>\<open>get\<close> with the stored value, exactly when \<open>e\<close> is truthy and
  \<open>T \<le> e + gap\<close>, where the sum is the sum of doubles and \<^verbatim>\<open>Infinity\<close> is a time that
  every \<open>T\<close> precedes; otherwise \<^verbatim>\<open>get\<close> answers \<^verbatim>\<open>null\<close>. After \<^verbatim>\<open>set(key, t, v)\<close> with a
  truthy \<open>t\<close>, \<^verbatim>\<open>get(key, t + gap)\<close> is \<open>v\<close>; \<^verbatim>\<open>get(key, t + gap + 1)\<close> is \<^verbatim>\<open>null\<close> when
  \<open>t + gap\<close> is of magnitude below \<open>2^53\<close>, where the sums are exact. An entry set with
  a falsy expiration time is valid at no time, and at every time \<^verbatim>\<open>get\<close> returns the
  stored value exactly when \<^verbatim>\<open>has\<close> is truthy.
\<close>

theorem expiring_entry_validity:
  fixes c :: ExpiringLazyCache
  shows
    "(LazyCache_get c k = Some (e, v) \<longrightarrow>
        (js_truthy (ExpiringLazyCache_has c now k T) =
           (js_truthy (exptime_val e) \<and>
            (case e of
               TNum n \<Rightarrow> (case T of None \<Rightarrow> now | Some t \<Rightarrow> t) \<le> js_add n (expiringGap c)
             | TInfinity \<Rightarrow> True
             | _ \<Rightarrow> False)))
        \<and> ExpiringLazyCache_get c now k T =
            (if js_truthy (exptime_val e) \<and>
                (case e of
                   TNum n \<Rightarrow> (case T of None \<Rightarrow> now | Some t \<Rightarrow> t) \<le> js_add n (expiringGap c)
                 | TInfinity \<Rightarrow> True
                 | _ \<Rightarrow> False)
             then v else JNull))
     \<and> (t \<noteq> 0 \<longrightarrow>
          ExpiringLazyCache_get (ExpiringLazyCache_set c k (TNum t) v) now k
            (Some (js_add t (expiringGap c))) = v)
     \<and> (\<bar>t + expiringGap c\<bar> < 2 ^ 53 \<longrightarrow>
          js_add t (expiringGap c) = t + expiringGap c
          \<and> js_add (js_add t (expiringGap c)) 1 = t + expiringGap c + 1
          \<and> ExpiringLazyCache_get (ExpiringLazyCache_set c k (TNum t) v) now k
              (Some (js_add (js_add t (expiringGap c)) 1)) = JNull)
     \<and> (\<not> js_truthy (exptime_val e) \<longrightarrow>
          \<not> js_truthy (ExpiringLazyCache_has (ExpiringLazyCache_set c k e v) now k T)
          \<and> ExpiringLazyCache_get (ExpiringLazyCache_set c k e v) now k T = JNull)
     \<and> ExpiringLazyCache_get c now k T =
          (if js_truthy (ExpiringLazyCache_has c now k T)
           then snd (entry_of (LazyCache_get c k)) else JNull)"
proof (intro conjI impI)
  assume "LazyCache_get c k = Some (e, v)"
  then show "js_truthy (ExpiringLazyCache_has c now k T) =
      (js_truthy (exptime_val e) \<and>
       (case e of
          TNum n \<Rightarrow> (case T of None \<Rightarrow> now | Some t \<Rightarrow> t) \<le> js_add n (expiringGap c)
        | TInfinity \<Rightarrow> True
        | _ \<Rightarrow> False))"
    by (simp only: has_entry isValid'_truthy)
next
  assume "LazyCache_get c k = Some (e, v)"
  then show "ExpiringLazyCache_get c now k T =
      (if js_truthy (exptime_val e) \<and>
          (case e of
             TNum n \<Rightarrow> (case T of None \<Rightarrow> now | Some t \<Rightarrow> t) \<le> js_add n (expiringGap c)
           | TInfinity \<Rightarrow> True
           | _ \<Rightarrow> False)
       then v else JNull)"
    by (simp only: get_entry isValid'_truthy)
next
  assume "t \<noteq> 0"
  then show "ExpiringLazyCache_get (ExpiringLazyCache_set c k (TNum t) v) now k
      (Some (js_add t (expiringGap c))) = v"
    by (simp add: get_entry [OF stored_entry] isValid'_truthy)
next
  assume "\<bar>t + expiringGap c\<bar> < 2 ^ 53"
  then show "js_add t (expiringGap c) = t + expiringGap c"
    by (simp add: js_add_exact)
next
  assume "\<bar>t + expiringGap c\<bar> < 2 ^ 53"
  then show "js_add (js_add t (expiringGap c)) 1 = t + expiringGap c + 1"
    by (simp add: js_add_exact)
next
  assume bound: "\<bar>t + expiringGap c\<bar> < 2 ^ 53"
  then have "js_add (js_add t (expiringGap c)) 1 = t + expiringGap c + 1"
    and "js_add t (expiringGap c) = t + expiringGap c"
    by (simp_all add: js_add_exact)
  then show "ExpiringLazyCache_get (ExpiringLazyCache_set c k (TNum t) v) now k
      (Some (js_add (js_add t (expiringGap c)) 1)) = JNull"
    by (simp add: get_entry [OF stored_entry] isValid'_truthy)
next
  assume "\<not> js_truthy (exptime_val e)"
  then show "\<not> js_truthy (ExpiringLazyCache_has (ExpiringLazyCache_set c k e v) now k T)"
    by (simp add: has_entry [OF stored_entry] isValid'_truthy)
next
  assume "\<not> js_truthy (exptime_val e)"
  then show "ExpiringLazyCache_get (ExpiringLazyCache_set c k e v) now k T = JNull"
    by (simp add: get_entry [OF stored_entry] isValid'_truthy)
next
  show "ExpiringLazyCache_get c now k T =
      (if js_truthy (ExpiringLazyCache_has c now k T)
       then snd (entry_of (LazyCache_get c k)) else JNull)"
    by (rule has_get_agree)
qed

theorem expiring_entry_validity_witness:
  "LazyCache_get
     (ExpiringLazyCache_set (new_ExpiringLazyCache None None) (Keys [''a'', ''b'']) (TNum 1000) (JStr ''v''))
     (Keys [''a'', ''b'']) = Some (TNum 1000, JStr ''v'')
   \<and> (1000::int) \<noteq> 0
   \<and> \<bar>1000 + expiringGap (new_ExpiringLazyCache None None)\<bar> < 2 ^ 53
   \<and> \<not> js_truthy (exptime_val (TNum 0))
   \<and> js_truthy (ExpiringLazyCache_has
        (ExpiringLazyCache_set (new_ExpiringLazyCache None None) (Keys [''a'', ''b'']) (TNum 1000) (JStr ''v''))
        0 (Keys [''a'', ''b'']) (Some 1100))
   \<and> ExpiringLazyCache_get
        (ExpiringLazyCache_set (new_ExpiringLazyCache None None) (Keys [''a'', ''b'']) (TNum 1000) (JStr ''v''))
        0 (Keys [''a'', ''b'']) (Some 1100) = JStr ''v''
   \<and> ExpiringLazyCache_get
        (ExpiringLazyCache_set (new_ExpiringLazyCache None None) (Keys [''a'', ''b'']) (TNum 1000) (JStr ''v''))
        0 (Keys [''a'', ''b'']) (Some 1101) = JNull
   \<and> ExpiringLazyCache_get
        (ExpiringLazyCache_set (new_ExpiringLazyCache None None) (Keys [''a'', ''b'']) (TNum 0) (JStr ''v''))
        0 (Keys [''a'', ''b'']) (Some 0) = JNull"
proof -
  let ?c = "new_ExpiringLazyCache None None"
  let ?k = "Keys [''a'', ''b'']"
  let ?c1 = "ExpiringLazyCache_set ?c ?k (TNum 1000) (JStr ''v'')"
  have gap: "expiringGap ?c = 100"
    by (simp add: new_ExpiringLazyCache_def DEFAULT_EXPIRING_GAP_def)
  have sums: "js_add 1000 100 = 1100" "js_add 1100 1 = 1101"
    by (simp_all add: js_add_exact)
  have stored: "LazyCache_get ?c1 ?k = Some (TNum 1000, JStr ''v'')"
    by (rule stored_entry)
  have falsy: "\<not> js_truthy (exptime_val (TNum 0))" by simp
  note v1 = expiring_entry_validity [of ?c1 ?k "TNum 1000" "JStr ''v''" 0 "Some 1100" 1000]
  note v2 = expiring_entry_validity [of ?c ?k "TNum 0" "JStr ''v''" 0 "Some 0" 1000]
  from v1 stored have a: "js_truthy (ExpiringLazyCache_has ?c1 0 ?k (Some 1100))"
    by (simp add: gap sums)
  from v1 stored have b: "ExpiringLazyCache_get ?c1 0 ?k (Some 1100) = JStr ''v''"
    by (simp add: gap sums)
  from v2 have b': "ExpiringLazyCache_get ?c1 0 ?k (Some 1101) = JNull"
    by (simp add: gap sums)
  from v2 falsy have c: "ExpiringLazyCache_get
        (ExpiringLazyCache_set ?c ?k (TNum 0) (JStr ''v'')) 0 ?k (Some 0) = JNull"
    by blast
  from stored a b b' c show ?thesis by (simp add: gap)
qed

section \<open>The local cache: a stored null\<close>

text \<open>
  Claim C9, as stated, fails: a key set with the value \<^verbatim>\<open>null\<close> and an expiration time
  that is still valid is reported present by \<^verbatim>\<open>has\<close>, a key never set is not.
\<close>

theorem null_value_counterexample:
  "ExpiringLazyCache_has
     (ExpiringLazyCache_set (new_ExpiringLazyCache None None) (Key ''k'') (TNum 1000) JNull)
     0 (Key ''k'') (Some 1000)
   \<noteq> ExpiringLazyCache_has (new_ExpiringLazyCache None None) 0 (Key ''k'') (Some 1000)"
  by (simp add: has_entry [OF stored_entry] has_absent LazyCache_get_def
        new_ExpiringLazyCache_def isValid'_def DEFAULT_EXPIRING_GAP_def js_add_exact)

text \<open>
  Claim C9, amended. For every key never set, every expiration time and every query
  time: \<^verbatim>\<open>get\<close> answers \<^verbatim>\<open>null\<close> both for the key as it is and after it was set with
  the value \<^verbatim>\<open>null\<close>, so \<^verbatim>\<open>get\<close> cannot tell the two apart; \<^verbatim>\<open>has\<close> can: it answers
  \<^verbatim>\<open>false\<close> for the key never set, and for the key set with \<^verbatim>\<open>null\<close> it answers as it
  does for any stored value, by the validity of the expiration time (the plain cache
  underneath holds the key).
\<close>

theorem null_value_amended:
  fixes c :: ExpiringLazyCache
  assumes "\<not> LazyCache_has c k"
  shows "ExpiringLazyCache_get (ExpiringLazyCache_set c k e JNull) now k T = JNull
       \<and> ExpiringLazyCache_get c now k T = JNull
       \<and> ExpiringLazyCache_has c now k T = JBool False
       \<and> ExpiringLazyCache_has (ExpiringLazyCache_set c k e JNull) now k T = isValid' c now e T
       \<and> LazyCache_has (ExpiringLazyCache_set c k e JNull) k"
proof -
  from assms have absent: "LazyCache_get c k = None"
    unfolding LazyCache_has_def LazyCache_get_def by blast
  have present: "LazyCache_has (ExpiringLazyCache_set c k e JNull) k"
    by (simp add: ExpiringLazyCache_set_def LazyCache_has_set)
  show ?thesis
    by (simp add: get_entry [OF stored_entry] has_entry [OF stored_entry]
          get_absent [OF absent] has_absent [OF absent] present)
qed

theorem null_value_amended_witness:
  "\<not> LazyCache_has (new_ExpiringLazyCache None None) (Key ''k'')
   \<and> ExpiringLazyCache_get
        (ExpiringLazyCache_set (new_ExpiringLazyCache None None) (Key ''k'') (TNum 1000) JNull)
        0 (Key ''k'') (Some 1000) = JNull
   \<and> ExpiringLazyCache_get (new_ExpiringLazyCache None None) 0 (Key ''k'') (Some 1000) = JNull
   \<and> ExpiringLazyCache_has (new_ExpiringLazyCache None None) 0 (Key ''k'') (Some 1000) = JBool False
   \<and> ExpiringLazyCache_has
        (ExpiringLazyCache_set (new_ExpiringLazyCache None None) (Key ''k'') (TNum 1000) JNull)
        0 (Key ''k'') (Some 1000) = JBool True"
proof -
  have absent: "\<not> LazyCache_has (new_ExpiringLazyCache None None) (Key ''k'')"
    by (simp add: LazyCache_has_def new_ExpiringLazyCache_def)
  have "isValid' (new_ExpiringLazyCache None None) 0 (TNum 1000) (Some 1000) = JBool True"
    by (simp add: isValid'_def new_ExpiringLazyCache_def DEFAULT_EXPIRING_GAP_def js_add_exact)
  with absent null_value_amended [OF absent, of "TNum 1000" 0 "Some 1000"]
  show ?thesis by simp
qed

section \<open>The handler registry: what the calls do\<close>

lemma findIndex_absent: "x \<notin> set xs \<Longrightarrow> findIndex (\<lambda>y. y = x) xs = - 1"
  by (induction xs) (auto simp: Let_def)

lemma splice_minus_one: "xs \<noteq> [] \<Longrightarrow> splice (- 1) 1 xs = butlast xs"
  by (cases xs rule: rev_cases) (simp_all add: splice_def Let_def)

lemma proto_example:
  "registry_run Redis quiet_start [Register ''__proto__'' ''h1'', Register ''__proto__'' ''h2'']
   = \<lparr> redisIsOnCF = False, client = False,
       subscriberClient = Some [SUBSCRIBE ''__proto__'', SUBSCRIBE ''__proto__''],
       messageHandlers = Map.empty, server = quiet_store \<rparr>"
  by (simp add: registry_run_def quiet_start_def reset'_def registerMessageHandler_def
        createSubscriber'_def createClientBase'_def Redis_def subscriber_send_def
        assign_property_def)

text \<open>
  Claim C5 says that a channel has an entry in the registry if and only if a handler
  is registered for it, that a registration subscribes on the first handler of a
  channel, and that a removal unsubscribes when the list of the channel becomes empty.
  At this input it does not hold: from the state at module load, two handlers are
  registered for the channel named \<^verbatim>\<open>__proto__\<close>. Both calls succeed and each sends
  \<^verbatim>\<open>SUBSCRIBE\<close>, the second as well; the registry holds no entry for the channel; a
  message on the channel reaches no handler; and neither removal changes anything, so
  the connection stays subscribed.
\<close>

theorem registry_proto_channel:
  "(\<exists>s1 s2. registerMessageHandler Redis ''__proto__'' ''h1'' quiet_start = Inr s1
       \<and> registerMessageHandler Redis ''__proto__'' ''h2'' s1 = Inr s2
       \<and> s2 = registry_run Redis quiet_start
                [Register ''__proto__'' ''h1'', Register ''__proto__'' ''h2''])
   \<and> sent_of (registry_run Redis quiet_start
        [Register ''__proto__'' ''h1'', Register ''__proto__'' ''h2''])
      = [SUBSCRIBE ''__proto__'', SUBSCRIBE ''__proto__'']
   \<and> \<not> hasMessageHandlers' (registry_run Redis quiet_start
        [Register ''__proto__'' ''h1'', Register ''__proto__'' ''h2'']) ''__proto__''
   \<and> invoked (onMessage' (\<lambda>h msg. None) (\<lambda>h. h)
        (registry_run Redis quiet_start
           [Register ''__proto__'' ''h1'', Register ''__proto__'' ''h2''])
        ''__proto__'' (JStr ''changed'')) = []
   \<and> removeMessageHandler ''__proto__'' ''h1''
        (registry_run Redis quiet_start
           [Register ''__proto__'' ''h1'', Register ''__proto__'' ''h2''])
      = registry_run Redis quiet_start
          [Register ''__proto__'' ''h1'', Register ''__proto__'' ''h2'']
   \<and> removeAllMessageHandlers ''__proto__''
        (registry_run Redis quiet_start
           [Register ''__proto__'' ''h1'', Register ''__proto__'' ''h2''])
      = registry_run Redis quiet_start
          [Register ''__proto__'' ''h1'', Register ''__proto__'' ''h2'']"
proof -
  let ?s = "registry_run Redis quiet_start
              [Register ''__proto__'' ''h1'', Register ''__proto__'' ''h2'']"
  let ?s1 = "\<lparr> redisIsOnCF = False, client = False,
       subscriberClient = Some [SUBSCRIBE ''__proto__''],
       messageHandlers = Map.empty, server = quiet_store \<rparr> :: (redis, string) wrapper"
  have r1: "registerMessageHandler Redis ''__proto__'' ''h1'' quiet_start = Inr ?s1"
    by (simp add: quiet_start_def reset'_def registerMessageHandler_def
          createSubscriber'_def createClientBase'_def Redis_def subscriber_send_def
          assign_property_def)
  have r2: "registerMessageHandler Redis ''__proto__'' ''h2'' ?s1 = Inr ?s"
    by (simp add: proto_example registerMessageHandler_def subscriber_send_def
          assign_property_def)
  have calls: "\<exists>s1 s2. registerMessageHandler Redis ''__proto__'' ''h1'' quiet_start = Inr s1
       \<and> registerMessageHandler Redis ''__proto__'' ''h2'' s1 = Inr s2 \<and> s2 = ?s"
    using r1 r2 by blast
  have sent: "sent_of ?s = [SUBSCRIBE ''__proto__'', SUBSCRIBE ''__proto__'']"
    by (simp add: proto_example sent_of_def)
  have has: "\<not> hasMessageHandlers' ?s ''__proto__''"
    by (simp add: proto_example hasMessageHandlers'_def)
  have inv: "invoked (onMessage' (\<lambda>h msg. None) (\<lambda>h. h) ?s ''__proto__'' (JStr ''changed'')) = []"
    using has by (simp add: onMessage'_def)
  have rm: "removeMessageHandler ''__proto__'' ''h1'' ?s = ?s"
    using has by (simp add: removeMessageHandler_def)
  have rma: "removeAllMessageHandlers ''__proto__'' ?s = ?s"
    using has by (simp add: removeAllMessageHandlers_def)
  from calls sent has inv rm rma show ?thesis by (intro conjI)
qed

lemma torn_example:
  "registry_run Redis quiet_start
     [Register ''a'' ''h1'', SubscriberError (JError ''Error'' ''connection lost'')]
   = \<lparr> redisIsOnCF = False, client = False, subscriberClient = None,
       messageHandlers = [''a'' \<mapsto> [''h1'']], server = quiet_store \<rparr>"
  by (simp add: registry_run_def quiet_start_def reset'_def registerMessageHandler_def
        createSubscriber'_def createClientBase'_def Redis_def subscriber_send_def
        assign_property_def subscriber_on_error_def logErrorOnEvent'_def)

text \<open>
  Claim C10, as stated, fails after an \<^verbatim>\<open>error\<close> event on the subscriber connection:
  the listener sets \<^verbatim>\<open>subscriberClient\<close> to \<^verbatim>\<open>null\<close> and keeps the handlers. Here a handler
  is registered for a channel and the connection then reports an error; the list of the
  channel still holds the handler, and \<^verbatim>\<open>removeMessageHandler\<close> with a handler that is
  not in the list returns at its first test and leaves the registry unchanged.
\<close>

theorem remove_after_subscriber_error:
  "messageHandlers
     (registry_run Redis quiet_start
        [Register ''a'' ''h1'', SubscriberError (JError ''Error'' ''connection lost'')]) ''a''
     = Some [''h1'']
   \<and> ''h3'' \<notin> set [''h1'']
   \<and> removeMessageHandler ''a'' ''h3''
        (registry_run Redis quiet_start
           [Register ''a'' ''h1'', SubscriberError (JError ''Error'' ''connection lost'')])
      = registry_run Redis quiet_start
          [Register ''a'' ''h1'', SubscriberError (JError ''Error'' ''connection lost'')]"
  by (simp add: torn_example removeMessageHandler_def)

text \<open>
  Claim C10, amended. Take a channel whose handler list \<open>hs\<close> is not empty and a handler
  \<open>h\<close> that is not in it. While a subscriber connection exists (\<^verbatim>\<open>subscriberClient\<close> is
  not \<^verbatim>\<open>null\<close>), \<^verbatim>\<open>removeMessageHandler(channel, h)\<close> removes the last handler of the
  list (\<^verbatim>\<open>findIndex\<close> yields \<open>-1\<close>, and \<^verbatim>\<open>splice(-1, 1)\<close> cuts from the end); when the
  list had one element the channel entry is deleted and \<^verbatim>\<open>UNSUBSCRIBE\<close> is sent, and
  nothing is sent otherwise. Without a subscriber connection the call changes nothing.
\<close>

theorem remove_unregistered_handler:
  assumes "messageHandlers s ch = Some hs" and "hs \<noteq> []" and "h \<notin> set hs"
  shows "(subscriberClient s \<noteq> None \<longrightarrow>
            messageHandlers (removeMessageHandler ch h s) =
              (if length hs = 1 then (messageHandlers s)(ch := None)
               else (messageHandlers s)(ch \<mapsto> butlast hs))
            \<and> sent_of (removeMessageHandler ch h s) =
                sent_of s @ (if length hs = 1 then [UNSUBSCRIBE ch] else [])
            \<and> subscriberClient (removeMessageHandler ch h s) \<noteq> None)
       \<and> (subscriberClient s = None \<longrightarrow> removeMessageHandler ch h s = s)"
proof (intro conjI impI)
  assume "subscriberClient s = None"
  then show "removeMessageHandler ch h s = s" by (simp add: removeMessageHandler_def)
next
  have idx: "findIndex (\<lambda>m. m = h) hs = - 1" using assms(3) by (rule findIndex_absent)
  have sp: "splice (- 1) 1 hs = butlast hs" using assms(2) by (rule splice_minus_one)
  have len: "(butlast hs = []) = (length hs = Suc 0)" using assms(2) by (cases hs) auto
  assume "subscriberClient s \<noteq> None"
  then obtain sent where sent: "subscriberClient s = Some sent" by blast
  show "messageHandlers (removeMessageHandler ch h s) =
          (if length hs = 1 then (messageHandlers s)(ch := None)
           else (messageHandlers s)(ch \<mapsto> butlast hs))"
    using sent assms(1) len
    by (simp add: removeMessageHandler_def hasMessageHandlers'_def idx sp Let_def
          subscriber_send_def)
  show "sent_of (removeMessageHandler ch h s) =
          sent_of s @ (if length hs = 1 then [UNSUBSCRIBE ch] else [])"
    using sent assms(1) len
    by (simp add: removeMessageHandler_def hasMessageHandlers'_def idx sp Let_def
          subscriber_send_def sent_of_def)
  show "subscriberClient (removeMessageHandler ch h s) \<noteq> None"
    using sent assms(1) len
    by (simp add: removeMessageHandler_def hasMessageHandlers'_def idx sp Let_def
          subscriber_send_def)
qed

lemma registry_example2:
  "registry_run Redis quiet_start [Register ''a'' ''h1'', Register ''a'' ''h2'']
   = \<lparr> redisIsOnCF = False, client = False, subscriberClient = Some [SUBSCRIBE ''a''],
       messageHandlers = [''a'' \<mapsto> [''h1'', ''h2'']], server = quiet_store \<rparr>"
  by (simp add: registry_run_def quiet_start_def reset'_def registerMessageHandler_def
        createSubscriber'_def createClientBase'_def Redis_def subscriber_send_def
        assign_property_def)

lemma torn_example2:
  "registry_run Redis quiet_start
     [Register ''a'' ''h1'', Register ''a'' ''h2'', SubscriberError JNull, SubscriberError (JStr ''down'')]
   = \<lparr> redisIsOnCF = False, client = False, subscriberClient = None,
       messageHandlers = [''a'' \<mapsto> [''h1'', ''h2'']], server = quiet_store \<rparr>"
  by (simp add: registry_run_def quiet_start_def reset'_def registerMessageHandler_def
        createSubscriber'_def createClientBase'_def Redis_def subscriber_send_def
        assign_property_def subscriber_on_error_def logErrorOnEvent'_def TypeError_def)

theorem remove_unregistered_handler_witness:
  "messageHandlers
     (registry_run Redis quiet_start [Register ''a'' ''h1'', Register ''a'' ''h2'']) ''a''
     = Some [''h1'', ''h2'']
   \<and> [''h1'', ''h2''] \<noteq> ([] :: string list) \<and> ''h3'' \<notin> set [''h1'', ''h2'']
   \<and> subscriberClient
        (registry_run Redis quiet_start [Register ''a'' ''h1'', Register ''a'' ''h2'']) \<noteq> None
   \<and> messageHandlers (removeMessageHandler ''a'' ''h3''
        (registry_run Redis quiet_start [Register ''a'' ''h1'', Register ''a'' ''h2''])) ''a''
     = Some [''h1'']
   \<and> sent_of (removeMessageHandler ''a'' ''h3''
        (registry_run Redis quiet_start [Register ''a'' ''h1'', Register ''a'' ''h2'']))
     = [SUBSCRIBE ''a'']
   \<and> messageHandlers
        (registry_run Redis quiet_start
           [Register ''a'' ''h1'', Register ''a'' ''h2'', SubscriberError JNull,
            SubscriberError (JStr ''down'')]) ''a''
     = Some [''h1'', ''h2'']
   \<and> subscriberClient
        (registry_run Redis quiet_start
           [Register ''a'' ''h1'', Register ''a'' ''h2'', SubscriberError JNull,
            SubscriberError (JStr ''down'')]) = None
   \<and> removeMessageHandler ''a'' ''h3''
        (registry_run Redis quiet_start
           [Register ''a'' ''h1'', Register ''a'' ''h2'', SubscriberError JNull,
            SubscriberError (JStr ''down'')])
     = registry_run Redis quiet_start
         [Register ''a'' ''h1'', Register ''a'' ''h2'', SubscriberError JNull,
          SubscriberError (JStr ''down'')]"
proof -
  let ?s = "registry_run Redis quiet_start [Register ''a'' ''h1'', Register ''a'' ''h2'']"
  let ?t = "registry_run Redis quiet_start
              [Register ''a'' ''h1'', Register ''a'' ''h2'', SubscriberError JNull,
               SubscriberError (JStr ''down'')]"
  have hs: "messageHandlers ?s ''a'' = Some [''h1'', ''h2'']" by (simp add: registry_example2)
  have sent: "sent_of ?s = [SUBSCRIBE ''a'']" by (simp add: registry_example2 sent_of_def)
  have conn: "subscriberClient ?s \<noteq> None" by (simp add: registry_example2)
  have ht: "messageHandlers ?t ''a'' = Some [''h1'', ''h2'']" by (simp add: torn_example2)
  have none: "subscriberClient ?t = None" by (simp add: torn_example2)
  have ne: "[''h1'', ''h2''] \<noteq> ([] :: string list)" and out: "''h3'' \<notin> set [''h1'', ''h2'']" by simp_all
  from remove_unregistered_handler [OF hs ne out] remove_unregistered_handler [OF ht ne out]
    hs sent conn ht none
  show ?thesis by simp
qed

section \<open>Message dispatch: isolation of handlers\<close>

text \<open>
  What holds of the dispatcher: without handlers for the channel nothing happens;
  otherwise every handler of the channel is invoked with the message, whatever the
  others do; and when every failure of a handler is one that \<^verbatim>\<open>_logErrorOnEvent\<close> can
  log (\<open>loggable\<close>), every failure is logged on its own and the dispatcher's promise is
  fulfilled.
\<close>

lemma logErrorOnEvent'_loggable:
  "loggable onCF err \<longleftrightarrow> (\<exists>entry. logErrorOnEvent' onCF err messages = Inr entry)"
proof (cases onCF)
  case True
  show ?thesis
  proof (cases messages)
    case None
    with True show ?thesis
      by (cases "js_truthy err"; cases "is_Error err")
        (simp_all add: loggable_def logErrorOnEvent'_def)
  next
    case (Some p)
    obtain fmt args where "p = (fmt, args)" by (cases p)
    with Some True show ?thesis
      by (cases "js_truthy err"; cases "is_Error err")
        (simp_all add: loggable_def logErrorOnEvent'_def)
  qed
next
  case False
  then show ?thesis
    by (cases err) (simp_all add: loggable_def logErrorOnEvent'_def)
qed

lemma onMessage'_no_handlers:
  assumes "\<not> hasMessageHandlers' s ch"
  shows "onMessage' call hname s ch msg = \<lparr> invoked = [], logged = [], rejected = None \<rparr>"
  using assms by (simp add: onMessage'_def)

lemma onMessage'_invokes_all:
  assumes "messageHandlers s ch = Some hs"
  shows "invoked (onMessage' call hname s ch msg) = map (\<lambda>h. (h, msg)) hs"
  using assms by (simp add: onMessage'_def hasMessageHandlers'_def Let_def)

lemma deliver_caught:
  assumes "\<And>err. call h msg = Some err \<Longrightarrow> loggable onCF err"
  shows "snd (deliver onCF call hname ch msg h) = None
       \<and> length (fst (deliver onCF call hname ch msg h)) = (if call h msg = None then 0 else 1)"
proof (cases "call h msg")
  case None
  then show ?thesis by (simp add: deliver_def)
next
  case (Some err)
  with assms have "loggable onCF err" by simp
  then obtain entry where
    "logErrorOnEvent' onCF err
       (Some (''error during message handler %O'',
              [JObj [(''handler'', JStr (hname h)), (''channel'', JStr ch)]])) = Inr entry"
    unfolding logErrorOnEvent'_loggable [where messages = "Some (''error during message handler %O'',
              [JObj [(''handler'', JStr (hname h)), (''channel'', JStr ch)]])"]
    by blast
  with Some show ?thesis by (simp add: deliver_def)
qed

lemma first_rejection_none: "(\<forall>r \<in> set rs. r = None) \<Longrightarrow> first_rejection rs = None"
  by (induction rs) (auto simp: first_rejection_def)

lemma onMessage'_isolated:
  assumes "messageHandlers s ch = Some hs"
    and "\<And>h err. h \<in> set hs \<Longrightarrow> call h msg = Some err \<Longrightarrow> loggable (redisIsOnCF s) err"
  shows "rejected (onMessage' call hname s ch msg) = None
       \<and> length (logged (onMessage' call hname s ch msg))
           = length (filter (\<lambda>h. call h msg \<noteq> None) hs)"
proof -
  have each: "snd (deliver (redisIsOnCF s) call hname ch msg h) = None
       \<and> length (fst (deliver (redisIsOnCF s) call hname ch msg h))
           = (if call h msg = None then 0 else 1)" if "h \<in> set hs" for h
    using assms(2) [OF that] by (intro deliver_caught)
  have rej: "first_rejection (map snd (map (deliver (redisIsOnCF s) call hname ch msg) hs)) = None"
    using each by (intro first_rejection_none) auto
  have len: "length (concat (map fst (map (deliver (redisIsOnCF s) call hname ch msg) hs)))
             = length (filter (\<lambda>h. call h msg \<noteq> None) hs)"
    using each
  proof (induction hs)
    case Nil
    then show ?case by simp
  next
    case (Cons a hs)
    then show ?case by (cases "call a msg") auto
  qed
  show ?thesis using assms(1) rej len
    by (simp add: onMessage'_def hasMessageHandlers'_def Let_def)
qed

lemma dispatch_example:
  "registry_run Redis (reset' False quiet_store) [Register ''a'' ''h1'', Register ''a'' ''h2'']
   = \<lparr> redisIsOnCF = False, client = False, subscriberClient = Some [SUBSCRIBE ''a''],
       messageHandlers = [''a'' \<mapsto> [''h1'', ''h2'']], server = quiet_store \<rparr>"
  by (simp add: registry_run_def reset'_def registerMessageHandler_def createSubscriber'_def
        createClientBase'_def Redis_def subscriber_send_def assign_property_def)

text \<open>
  Claim C6 says that any exception of a handler is caught and logged and never
  surfaces from the dispatcher. At this input it does not hold: the process is not on
  Cloud Foundry, two handlers are registered for the channel, and the first rejects
  with \<^verbatim>\<open>undefined\<close> (as \<^verbatim>\<open>Promise.reject()\<close> does). Both handlers are invoked, but
  nothing is logged, and the promise of \<^verbatim>\<open>_onMessage\<close> is rejected with the TypeError
  that reading \<^verbatim>\<open>err.message\<close> throws inside the \<^verbatim>\<open>catch\<close> block.
\<close>

theorem dispatch_rejects_on_undefined:
  "rejected (onMessage' (\<lambda>h msg. if h = ''h1'' then Some JUndefined else None) (\<lambda>h. h)
       (registry_run Redis (reset' False quiet_store) [Register ''a'' ''h1'', Register ''a'' ''h2''])
       ''a'' (JStr ''changed''))
     = Some (TypeError ''Cannot read properties of undefined'')
   \<and> logged (onMessage' (\<lambda>h msg. if h = ''h1'' then Some JUndefined else None) (\<lambda>h. h)
       (registry_run Redis (reset' False quiet_store) [Register ''a'' ''h1'', Register ''a'' ''h2''])
       ''a'' (JStr ''changed'')) = []
   \<and> invoked (onMessage' (\<lambda>h msg. if h = ''h1'' then Some JUndefined else None) (\<lambda>h. h)
       (registry_run Redis (reset' False quiet_store) [Register ''a'' ''h1'', Register ''a'' ''h2''])
       ''a'' (JStr ''changed''))
     = [(''h1'', JStr ''changed''), (''h2'', JStr ''changed'')]"
  by (simp add: dispatch_example onMessage'_def hasMessageHandlers'_def Let_def deliver_def
        logErrorOnEvent'_def first_rejection_def)

section \<open>Watched read-modify-write on any driver\<close>

lemma unexpected_replies_iff:
  "unexpected_replies doDelete replies \<longleftrightarrow>
     replies \<noteq> JArr [if doDelete then JNum 1 else JStr ''OK'']"
  by (auto simp: unexpected_replies_def split: jsval.splits list.splits)

lemma loop_unfold:
  "attempt \<le> attempts \<Longrightarrow>
   attempt_loop D J key cb m attempts attempt w =
     (case attempt_body D J key cb m attempts attempt w of
        (Returned v, w') \<Rightarrow> (Inr v, w')
      | (Raised err, w') \<Rightarrow> (Inl err, w')
      | (Aborted, w') \<Rightarrow> attempt_loop D J key cb m attempts (attempt + 1) w')"
  by (subst attempt_loop.simps) simp

lemma loop_exhausted:
  "attempts < attempt \<Longrightarrow>
   attempt_loop D J key cb m attempts attempt w = (Inl (attempt_limit key attempts), w)"
  by (subst attempt_loop.simps) simp

lemma loop_skip_aborted:
  assumes "aborted_attempts D J key cb m attempts n attempt w = Some w'"
    and "attempt + n \<le> Suc attempts"
  shows "attempt_loop D J key cb m attempts attempt w
         = attempt_loop D J key cb m attempts (attempt + n) w'"
  using assms
proof (induction n arbitrary: attempt w)
  case 0
  then show ?case by simp
next
  case (Suc n)
  from Suc.prems(1) obtain w1 where
    body: "attempt_body D J key cb m attempts attempt w = (Aborted, w1)"
    and rest: "aborted_attempts D J key cb m attempts n (Suc attempt) w1 = Some w'"
    by (auto split: prod.splits attempt_outcome.splits)
  from Suc.prems(2) have le: "attempt \<le> attempts" and le': "Suc attempt + n \<le> Suc attempts"
    by simp_all
  have "attempt_loop D J key cb m attempts attempt w
        = attempt_loop D J key cb m attempts (Suc attempt) w1"
    using le body by (simp add: loop_unfold)
  also have "\<dots> = attempt_loop D J key cb m attempts (Suc attempt + n) w'"
    by (rule Suc.IH [OF rest le'])
  finally show ?case by simp
qed

lemma loop_all_aborted:
  assumes "aborted_attempts D J key cb m attempts attempts 1 w = Some w'"
  shows "attempt_loop D J key cb m attempts 1 w = (Inl (attempt_limit key attempts), w')"
proof -
  have "attempt_loop D J key cb m attempts 1 w
        = attempt_loop D J key cb m attempts (1 + attempts) w'"
    by (rule loop_skip_aborted [OF assms]) simp
  then show ?thesis by (simp add: loop_exhausted)
qed

lemma body_short_circuit:
  assumes "watchAsync D key w = (Inr r, w1)"
    and "getAsync D key w1 = (Inr oldValueRaw, w2)"
    and "decode_old J m oldValueRaw = Inr oldValue"
    and "cb oldValue = Inr newValue"
    and "encode_new J m newValue = Inr (raw_val oldValueRaw)"
  shows "attempt_body D J key cb m attempts attempt w = (Returned oldValue, w2)"
  using assms by (simp add: attempt_body_def)

lemma body_unexpected:
  assumes "watchAsync D key w = (Inr r, w1)"
    and "getAsync D key w1 = (Inr oldValueRaw, w2)"
    and "decode_old J m oldValueRaw = Inr oldValue"
    and "cb oldValue = Inr newValue"
    and "encode_new J m newValue = Inr newValueRaw"
    and "raw_val oldValueRaw \<noteq> newValueRaw"
    and "multi_exec D (if newValueRaw = JNull then [QDel key] else [QSet key newValueRaw]) w2
           = (Inr replies, w3)"
    and "replies \<noteq> JNull"
    and "replies \<noteq> JArr [if newValueRaw = JNull then JNum 1 else JStr ''OK'']"
  shows "attempt_body D J key cb m attempts attempt w =
           (Raised (during_watched_get_set key
              (VError VERROR_CLUSTER_NAME ''received unexpected replies from redis'' []
                 [(''key'', JStr key), (''attempt'', JNum (int attempt)),
                  (''attempts'', JNum (int attempts)), (''replies'', replies)] None)), w3)"
  using assms by (simp add: attempt_body_def unexpected_replies_iff Let_def)

lemma during_watched_get_set_VError:
  "during_watched_get_set key (VError name fmt args info cause) =
     VError VERROR_CLUSTER_NAME ''error during watched get set'' [] [(''key'', JStr key)]
       (Some (VError name fmt args info cause))"
  by (simp add: during_watched_get_set_def throw_VError_def)

lemma watchedGetSet'_loop:
  assumes "ensure_client D s = Inr s1"
    and "attempt_loop D J key cb m attempts 1 (server s1) = (r, w)"
  shows "watchedGetSet' D J key cb m attempts s = (r, s1\<lparr> server := w \<rparr>)"
  using assms by (simp add: watchedGetSet'_def)

lemma ensure_client_Redis:
  "ensure_client Redis s =
     Inr (if client s then s
          else s\<lparr> client := True, server := (server s)\<lparr> watched := [], dirty := False \<rparr> \<rparr>)"
  by (simp add: ensure_client_def createClient'_def createClientBase'_def Redis_def)

lemma null_ensured:
  "ensure_client Redis null_start =
     Inr \<lparr> redisIsOnCF = False, client = True, subscriberClient = None,
           messageHandlers = Map.empty, server = null_store \<rparr>"
  by (simp add: ensure_client_Redis null_start_def reset'_def null_store_def)

lemma null_body:
  "attempt_body Redis json_literals ''toggle'' Inr OBJECT attempts attempt null_store =
     (Returned JNull,
      \<lparr> store = Map.empty, watched = [], dirty = False, others = [] \<rparr>)"
  by (simp add: attempt_body_def Redis_def redis_watch_def redis_get_def redis_exec_def
        arrive_def null_store_def decode_old_def encode_new_def json_literals_def raw_val_def
        Let_def redis_write_def unexpected_replies_def)

text \<open>
  Claim C1, as stated, fails in object mode for a key that holds the text \<^verbatim>\<open>null\<close> (what
  \<^verbatim>\<open>setObject(key, null)\<close> stores). The old value decodes to \<^verbatim>\<open>null\<close>; the callback
  returns it unchanged, and \<^verbatim>\<open>null\<close> serializes to exactly the stored text. But a
  \<^verbatim>\<open>null\<close> result is never serialized: it stands for the delete, the raw values differ,
  and the delete is committed. The call returns \<^verbatim>\<open>null\<close> and the key is gone.
\<close>

theorem null_text_deleted:
  "store (server null_start) ''toggle'' = Some ''null''
   \<and> parse json_literals (JStr ''null'') = Inr JNull
   \<and> stringify json_literals JNull = Inr (JStr ''null'')
   \<and> fst (watchedGetSetObject Redis json_literals ''toggle'' Inr None null_start) = Inr JNull
   \<and> store (server (snd (watchedGetSetObject Redis json_literals ''toggle'' Inr None null_start)))
        ''toggle'' = None"
proof -
  have loop: "attempt_loop Redis json_literals ''toggle'' Inr OBJECT 10 1
          (server (\<lparr> redisIsOnCF = False, client = True, subscriberClient = None,
             messageHandlers = Map.empty, server = null_store \<rparr> :: (redis, string) wrapper))
        = (Inr JNull, \<lparr> store = Map.empty, watched = [], dirty = False, others = [] \<rparr>)"
    by (subst loop_unfold) (simp_all add: null_body)
  have run: "watchedGetSetObject Redis json_literals ''toggle'' Inr None null_start
        = (Inr JNull,
           \<lparr> redisIsOnCF = False, client = True, subscriberClient = None,
             messageHandlers = Map.empty,
             server = \<lparr> store = Map.empty, watched = [], dirty = False, others = [] \<rparr> \<rparr>)"
    unfolding watchedGetSetObject_def
    using watchedGetSet'_loop [OF null_ensured loop]
    by simp
  show ?thesis
    unfolding run
    by (simp add: null_start_def reset'_def null_store_def json_literals_def)
qed

text \<open>
  Claim C1, amended. The client is available (\<open>s1\<close> is the state once it is), and the
  first \<^verbatim>\<open>WATCH\<close> and \<^verbatim>\<open>GET\<close> of the key succeed, \<^verbatim>\<open>GET\<close> replying \<open>oldValueRaw\<close>, the
  stored string or \<^verbatim>\<open>null\<close> for a missing key. In raw mode, if the callback's result is
  that reply; in object mode, if the key is missing and the result is \<^verbatim>\<open>null\<close>, or the
  key holds a string, the result is not \<^verbatim>\<open>null\<close> and \<^verbatim>\<open>JSON.stringify\<close> of it is exactly
  that string: then \<^verbatim>\<open>watchedGetSet\<close>, respectively \<^verbatim>\<open>watchedGetSetObject\<close>, returns the
  old value (decoded, in object mode), and the world it leaves is the one right after
  the reply to \<^verbatim>\<open>GET\<close>: no further command reached the driver, so no set, no delete and
  no commit. The number of attempts may be anything but zero (left out, it is 10).
\<close>

theorem unchanged_value_no_write:
  assumes "ensure_client D s = Inr s1"
    and "watchAsync D key (server s1) = (Inr r, w1)"
    and "getAsync D key w1 = (Inr oldValueRaw, w2)"
    and "attempts \<noteq> Some 0"
  shows "(newValueCallback (raw_val oldValueRaw) = Inr (raw_val oldValueRaw) \<longrightarrow>
            watchedGetSet D J key newValueCallback attempts s
              = (Inr (raw_val oldValueRaw), s1\<lparr> server := w2 \<rparr>))
       \<and> (oldValueRaw = None \<and> newValueCallback JNull = Inr JNull \<longrightarrow>
            watchedGetSetObject D J key newValueCallback attempts s
              = (Inr JNull, s1\<lparr> server := w2 \<rparr>))
       \<and> (oldValueRaw = Some raw
          \<and> parse J (JStr raw) = Inr oldValue
          \<and> newValueCallback oldValue = Inr newValue
          \<and> newValue \<noteq> JNull
          \<and> stringify J newValue = Inr (JStr raw) \<longrightarrow>
            watchedGetSetObject D J key newValueCallback attempts s
              = (Inr oldValue, s1\<lparr> server := w2 \<rparr>))"
proof -
  define n where "n = (case attempts of None \<Rightarrow> 10 | Some n \<Rightarrow> n)"
  have n: "1 \<le> n" using assms(4) by (cases attempts) (auto simp: n_def)
  have run: "watchedGetSet' D J key newValueCallback m n s = (Inr old, s1\<lparr> server := w2 \<rparr>)"
    if "decode_old J m oldValueRaw = Inr old" and "newValueCallback old = Inr new"
      and "encode_new J m new = Inr (raw_val oldValueRaw)" for m old new
  proof -
    have "attempt_loop D J key newValueCallback m n 1 (server s1) = (Inr old, w2)"
      using n by (simp add: loop_unfold body_short_circuit [where cb = newValueCallback, OF assms(2,3) that])
    then show ?thesis by (rule watchedGetSet'_loop [OF assms(1)])
  qed
  show ?thesis
  proof (intro conjI impI)
    assume cb: "newValueCallback (raw_val oldValueRaw) = Inr (raw_val oldValueRaw)"
    have dec: "decode_old J RAW oldValueRaw = Inr (raw_val oldValueRaw)"
      by (simp add: decode_old_def)
    have enc: "encode_new J RAW (raw_val oldValueRaw) = Inr (raw_val oldValueRaw)"
      by (simp add: encode_new_def)
    show "watchedGetSet D J key newValueCallback attempts s
               = (Inr (raw_val oldValueRaw), s1\<lparr> server := w2 \<rparr>)"
      unfolding watchedGetSet_def n_def [symmetric] by (rule run [OF dec cb enc])
  next
    assume h: "oldValueRaw = None \<and> newValueCallback JNull = Inr JNull"
    then have cb: "newValueCallback JNull = Inr JNull" by simp
    from h have dec: "decode_old J OBJECT oldValueRaw = Inr JNull"
      by (simp add: decode_old_def raw_val_def)
    from h have enc: "encode_new J OBJECT JNull = Inr (raw_val oldValueRaw)"
      by (simp add: encode_new_def raw_val_def)
    show "watchedGetSetObject D J key newValueCallback attempts s
               = (Inr JNull, s1\<lparr> server := w2 \<rparr>)"
      unfolding watchedGetSetObject_def n_def [symmetric] by (rule run [OF dec cb enc])
  next
    assume h: "oldValueRaw = Some raw
          \<and> parse J (JStr raw) = Inr oldValue
          \<and> newValueCallback oldValue = Inr newValue
          \<and> newValue \<noteq> JNull
          \<and> stringify J newValue = Inr (JStr raw)"
    then have cb: "newValueCallback oldValue = Inr newValue" by simp
    from h have dec: "decode_old J OBJECT oldValueRaw = Inr oldValue"
      by (simp add: decode_old_def raw_val_def)
    from h have enc: "encode_new J OBJECT newValue = Inr (raw_val oldValueRaw)"
      by (simp add: encode_new_def raw_val_def)
    show "watchedGetSetObject D J key newValueCallback attempts s
               = (Inr oldValue, s1\<lparr> server := w2 \<rparr>)"
      unfolding watchedGetSetObject_def n_def [symmetric] by (rule run [OF dec cb enc])
  qed
qed

lemma quiet_ensured:
  "ensure_client Redis quiet_start =
     Inr \<lparr> redisIsOnCF = False, client = True, subscriberClient = None,
           messageHandlers = Map.empty, server = quiet_store \<rparr>"
  by (simp add: ensure_client_Redis quiet_start_def reset'_def quiet_store_def)

lemma quiet_watch:
  "watchAsync Redis ''toggle'' quiet_store =
     (Inr (JStr ''OK''), quiet_store\<lparr> watched := [''toggle''] \<rparr>)"
  by (simp add: Redis_def redis_watch_def arrive_def quiet_store_def Let_def)

lemma quiet_get:
  "getAsync Redis ''toggle'' (quiet_store\<lparr> watched := [''toggle''] \<rparr>) =
     (Inr (Some ''true''), quiet_store\<lparr> watched := [''toggle''] \<rparr>)"
  by (simp add: Redis_def redis_get_def arrive_def quiet_store_def Let_def)

lemma quiet_watch_missing:
  "watchAsync Redis ''other'' quiet_store =
     (Inr (JStr ''OK''), quiet_store\<lparr> watched := [''other''] \<rparr>)"
  by (simp add: Redis_def redis_watch_def arrive_def quiet_store_def Let_def)

lemma quiet_get_missing:
  "getAsync Redis ''other'' (quiet_store\<lparr> watched := [''other''] \<rparr>) =
     (Inr None, quiet_store\<lparr> watched := [''other''] \<rparr>)"
  by (simp add: Redis_def redis_get_def arrive_def quiet_store_def Let_def)

theorem unchanged_value_no_write_witness:
  "watchedGetSet Redis json_literals ''toggle'' Inr None quiet_start
     = (Inr (JStr ''true''),
        \<lparr> redisIsOnCF = False, client = True, subscriberClient = None,
          messageHandlers = Map.empty, server = quiet_store\<lparr> watched := [''toggle''] \<rparr> \<rparr>)
   \<and> watchedGetSetObject Redis json_literals ''toggle'' Inr None quiet_start
     = (Inr (JBool True),
        \<lparr> redisIsOnCF = False, client = True, subscriberClient = None,
          messageHandlers = Map.empty, server = quiet_store\<lparr> watched := [''toggle''] \<rparr> \<rparr>)
   \<and> watchedGetSetObject Redis json_literals ''other'' Inr None quiet_start
     = (Inr JNull,
        \<lparr> redisIsOnCF = False, client = True, subscriberClient = None,
          messageHandlers = Map.empty, server = quiet_store\<lparr> watched := [''other''] \<rparr> \<rparr>)"
proof -
  have att: "(None :: nat option) \<noteq> Some 0" by simp
  have dec: "parse json_literals (JStr ''true'') = Inr (JBool True)"
    by (simp add: json_literals_def)
  have enc: "stringify json_literals (JBool True) = Inr (JStr ''true'')"
    by (simp add: json_literals_def)
  have cb: "Inr (raw_val (Some ''true'')) = (Inr (raw_val (Some ''true'')) :: jsval + jsval)"
    and cb': "Inr (JBool True) = (Inr (JBool True) :: jsval + jsval)"
    and cb'': "Inr JNull = (Inr JNull :: jsval + jsval)"
    by (rule refl)+
  note run = unchanged_value_no_write [OF quiet_ensured, simplified, OF quiet_watch quiet_get att,
      of Inr json_literals "''true''" "JBool True" "JBool True"]
  note run' = unchanged_value_no_write [OF quiet_ensured, simplified,
      OF quiet_watch_missing quiet_get_missing att, of Inr json_literals "''true''" "JBool True" "JBool True"]
  from run cb have raw: "watchedGetSet Redis json_literals ''toggle'' Inr None
      quiet_start
     = (Inr (raw_val (Some ''true'')),
        \<lparr> redisIsOnCF = False, client = True, subscriberClient = None,
          messageHandlers = Map.empty, server = quiet_store\<lparr> watched := [''toggle''] \<rparr> \<rparr>)"
    by blast
  from run dec cb' enc have obj: "watchedGetSetObject Redis json_literals ''toggle'' Inr None
      quiet_start
     = (Inr (JBool True),
        \<lparr> redisIsOnCF = False, client = True, subscriberClient = None,
          messageHandlers = Map.empty, server = quiet_store\<lparr> watched := [''toggle''] \<rparr> \<rparr>)"
    by simp
  from run' cb'' have missing: "watchedGetSetObject Redis json_literals ''other'' Inr None
      quiet_start
     = (Inr JNull,
        \<lparr> redisIsOnCF = False, client = True, subscriberClient = None,
          messageHandlers = Map.empty, server = quiet_store\<lparr> watched := [''other''] \<rparr> \<rparr>)"
    by simp
  show ?thesis unfolding raw obj missing by (simp add: raw_val_def)
qed

text \<open>
  Claim C4. Take any attempt of the loop, number \<open>attempt\<close>, reached after \<open>attempt - 1\<close>
  aborted commits. If in it \<^verbatim>\<open>WATCH\<close>, \<^verbatim>\<open>GET\<close>, the decoding, the callback and the encoding
  succeed, the new raw value differs from the old one, and the commit is answered with
  \<open>replies\<close> that are not \<^verbatim>\<open>null\<close> and not the one-element array holding the expected
  outcome (\<open>1\<close> for the delete, \<^verbatim>\<open>"OK"\<close> for the set), then the call raises: the error
  thrown is the unexpected-replies error with the key, the attempt number, the
  attempt limit and the replies received in its info, wrapped as the cause of the
  error that the surrounding \<^verbatim>\<open>catch\<close> throws. The world left is the one right after
  that commit: no further attempt is made. (\<^verbatim>\<open>watchedGetSet\<close> and \<^verbatim>\<open>watchedGetSetObject\<close>
  are this function in raw and in object mode.)
\<close>

theorem unexpected_replies_raise:
  assumes "ensure_client D s = Inr s1"
    and "0 < attempt" and "attempt \<le> attempts"
    and "aborted_attempts D J key cb m attempts (attempt - 1) 1 (server s1) = Some w"
    and "watchAsync D key w = (Inr r, w1)"
    and "getAsync D key w1 = (Inr oldValueRaw, w2)"
    and "decode_old J m oldValueRaw = Inr oldValue"
    and "cb oldValue = Inr newValue"
    and "encode_new J m newValue = Inr newValueRaw"
    and "raw_val oldValueRaw \<noteq> newValueRaw"
    and "multi_exec D (if newValueRaw = JNull then [QDel key] else [QSet key newValueRaw]) w2
           = (Inr replies, w3)"
    and "replies \<noteq> JNull"
    and "replies \<noteq> JArr [if newValueRaw = JNull then JNum 1 else JStr ''OK'']"
  shows "watchedGetSet' D J key cb m attempts s =
           (Inl (VError VERROR_CLUSTER_NAME ''error during watched get set'' []
                   [(''key'', JStr key)]
                   (Some (VError VERROR_CLUSTER_NAME
                            ''received unexpected replies from redis'' []
                            [(''key'', JStr key), (''attempt'', JNum (int attempt)),
                             (''attempts'', JNum (int attempts)), (''replies'', replies)]
                            None))),
            s1\<lparr> server := w3 \<rparr>)"
proof -
  have "attempt_loop D J key cb m attempts 1 (server s1)
        = attempt_loop D J key cb m attempts (1 + (attempt - 1)) w"
    using assms(2,3) by (intro loop_skip_aborted [OF assms(4)]) simp
  also have "1 + (attempt - 1) = attempt" using assms(2) by simp
  also have "attempt_loop D J key cb m attempts attempt w =
      (Inl (during_watched_get_set key
              (VError VERROR_CLUSTER_NAME ''received unexpected replies from redis'' []
                 [(''key'', JStr key), (''attempt'', JNum (int attempt)),
                  (''attempts'', JNum (int attempts)), (''replies'', replies)] None)), w3)"
    using assms(3) by (simp add: loop_unfold body_unexpected [where cb = cb, OF assms(5-13)])
  finally show ?thesis
    unfolding during_watched_get_set_VError by (rule watchedGetSet'_loop [OF assms(1)])
qed

lemma garbling_ensured:
  "ensure_client garbling_driver quiet_start =
     Inr \<lparr> redisIsOnCF = False, client = True, subscriberClient = None,
           messageHandlers = Map.empty, server = quiet_store \<rparr>"
  by (simp add: ensure_client_def createClient'_def createClientBase'_def garbling_driver_def
        Redis_def quiet_start_def reset'_def quiet_store_def)

theorem unexpected_replies_raise_witness:
  "watchedGetSet' garbling_driver json_literals ''toggle'' (\<lambda>_. Inr (JStr ''false'')) RAW 10
     quiet_start
   = (Inl (VError VERROR_CLUSTER_NAME ''error during watched get set'' []
             [(''key'', JStr ''toggle'')]
             (Some (VError VERROR_CLUSTER_NAME ''received unexpected replies from redis'' []
                      [(''key'', JStr ''toggle''), (''attempt'', JNum 1),
                       (''attempts'', JNum 10), (''replies'', JArr [])]
                      None))),
      \<lparr> redisIsOnCF = False, client = True, subscriberClient = None,
        messageHandlers = Map.empty, server = quiet_store\<lparr> watched := [''toggle''] \<rparr> \<rparr>)"
proof -
  let ?w = "quiet_store\<lparr> watched := [''toggle''] \<rparr>"
  have a: "(0::nat) < 1" and b: "(1::nat) \<le> 10" by simp_all
  let ?s1 = "\<lparr> redisIsOnCF = False, client = True, subscriberClient = None,
           messageHandlers = Map.empty, server = quiet_store \<rparr> :: (redis, string) wrapper"
  have ab: "aborted_attempts garbling_driver json_literals ''toggle'' (\<lambda>_. Inr (JStr ''false''))
              RAW 10 (1 - 1) 1 (server ?s1) = Some quiet_store"
    by simp
  have watch: "watchAsync garbling_driver ''toggle'' quiet_store = (Inr (JStr ''OK''), ?w)"
    by (simp add: garbling_driver_def quiet_watch)
  have get: "getAsync garbling_driver ''toggle'' ?w = (Inr (Some ''true''), ?w)"
    by (simp add: garbling_driver_def quiet_get)
  have dec: "decode_old json_literals RAW (Some ''true'') = Inr (JStr ''true'')"
    by (simp add: decode_old_def raw_val_def)
  have cb: "(\<lambda>_. Inr (JStr ''false'')) (JStr ''true'') = (Inr (JStr ''false'') :: jsval + jsval)"
    by simp
  have enc: "encode_new json_literals RAW (JStr ''false'') = Inr (JStr ''false'')"
    by (simp add: encode_new_def)
  have ne: "raw_val (Some ''true'') \<noteq> JStr ''false''" by (simp add: raw_val_def)
  have ex: "multi_exec garbling_driver
              (if JStr ''false'' = JNull then [QDel ''toggle''] else [QSet ''toggle'' (JStr ''false'')]) ?w
            = (Inr (JArr []), ?w)"
    by (simp add: garbling_driver_def)
  have r1: "JArr [] \<noteq> JNull"
    and r2: "JArr [] \<noteq> JArr [if JStr ''false'' = JNull then JNum 1 else JStr ''OK'']"
    by simp_all
  from unexpected_replies_raise [where cb = "\<lambda>_. Inr (JStr ''false'')",
      OF garbling_ensured a b ab watch get dec cb enc ne ex r1 r2]
  show ?thesis by simp
qed

section \<open>Watched read-modify-write on the reference store\<close>

lemma same_data_refl [simp]: "same_data w w"
  by (simp add: same_data_def)

lemma same_data_trans: "same_data a b \<Longrightarrow> same_data b c \<Longrightarrow> same_data a c"
  by (simp add: same_data_def)

lemma same_data_fields [simp]:
  "same_data (w\<lparr> watched := x \<rparr>) w' = same_data w w'"
  "same_data (w\<lparr> dirty := b \<rparr>) w' = same_data w w'"
  "same_data w (w'\<lparr> watched := x \<rparr>) = same_data w w'"
  "same_data w (w'\<lparr> dirty := b \<rparr>) = same_data w w'"
  by (simp_all add: same_data_def)

lemma writes_data:
  "store (foldl redis_write w batch) = foldl (\<lambda>st kv. st(fst kv := snd kv)) (store w) batch
   \<and> others (foldl redis_write w batch) = others w"
  by (induction batch arbitrary: w) (simp_all add: redis_write_def)

lemma same_data_arrive: "same_data w w' \<Longrightarrow> same_data (arrive w) (arrive w')"
  by (auto simp: same_data_def arrive_def writes_data split: list.splits)

lemma same_data_funpow: "same_data w w' \<Longrightarrow> same_data ((arrive ^^ n) w) ((arrive ^^ n) w')"
  by (induction n) (simp_all add: same_data_arrive)

lemma redis_body_aborted:
  assumes "attempt_body Redis J key cb m attempts attempt w = (Aborted, w')"
  shows "same_data w' ((arrive ^^ 3) w)"
proof -
  have 3: "(arrive ^^ 3) w = arrive (arrive (arrive w))" by (simp add: numeral_3_eq_3)
  have step: "same_data (arrive (arrive ((arrive w)\<lparr> watched := key # watched (arrive w) \<rparr>)))
                (arrive (arrive (arrive w)))"
    by (intro same_data_arrive) simp
  from assms show ?thesis
    unfolding 3
    using step
    by (auto simp: attempt_body_def Redis_def redis_watch_def redis_get_def redis_exec_def Let_def
          split: sum.splits if_splits prod.splits)
qed

lemma redis_aborted_attempts:
  assumes "aborted_attempts Redis J key cb m attempts n attempt w = Some w'"
  shows "same_data w' ((arrive ^^ (3 * n)) w)"
  using assms
proof (induction n arbitrary: attempt w)
  case 0
  then show ?case by simp
next
  case (Suc n)
  from Suc.prems obtain w1 where
    body: "attempt_body Redis J key cb m attempts attempt w = (Aborted, w1)"
    and rest: "aborted_attempts Redis J key cb m attempts n (Suc attempt) w1 = Some w'"
    by (auto split: prod.splits attempt_outcome.splits)
  have a: "same_data w' ((arrive ^^ (3 * n)) w1)" by (rule Suc.IH [OF rest])
  have b: "same_data ((arrive ^^ (3 * n)) w1) ((arrive ^^ (3 * n)) ((arrive ^^ 3) w))"
    by (rule same_data_funpow [OF redis_body_aborted [OF body]])
  have c: "(arrive ^^ (3 * n)) ((arrive ^^ 3) w) = (arrive ^^ (3 * Suc n)) w"
  proof -
    have "3 * Suc n = 3 * n + 3" by simp
    then show ?thesis by (simp only: funpow_add o_apply)
  qed
  show ?case using same_data_trans [OF a b] unfolding c .
qed

text \<open>
  Claim C3. On the reference store: if each of the \<open>attempts\<close> passes through the loop
  ends with an aborted commit (the reply \<^verbatim>\<open>null\<close>), the call raises the attempt-limit
  error, whose info names the key and the attempt limit, and the keyspace it leaves is
  the one that the writes of the other clients alone produce over the \<open>3 * attempts\<close>
  commands sent: nothing of the call was written. (\<^verbatim>\<open>watchedGetSet\<close> and
  \<^verbatim>\<open>watchedGetSetObject\<close> are this function in raw and in object mode, with 10
  attempts when the argument is left out.)
\<close>

theorem attempt_limit_reached:
  assumes "ensure_client Redis s = Inr s1"
    and "aborted_attempts Redis J key cb m attempts attempts 1 (server s1) = Some w'"
  shows "fst (watchedGetSet' Redis J key cb m attempts s) =
           Inl (VError VERROR_CLUSTER_NAME ''reached watched get set attempt limit'' []
                  [(''key'', JStr key), (''attempts'', JNum (int attempts))] None)
       \<and> store (server (snd (watchedGetSet' Redis J key cb m attempts s)))
           = store ((arrive ^^ (3 * attempts)) (server s1))"
proof -
  have "watchedGetSet' Redis J key cb m attempts s
        = (Inl (attempt_limit key attempts), s1\<lparr> server := w' \<rparr>)"
    by (rule watchedGetSet'_loop [OF assms(1) loop_all_aborted [OF assms(2)]])
  moreover have "store w' = store ((arrive ^^ (3 * attempts)) (server s1))"
    using redis_aborted_attempts [OF assms(2)] by (simp add: same_data_def)
  ultimately show ?thesis by (simp add: attempt_limit_def)
qed

lemma busy_ensured:
  "ensure_client Redis busy_start =
     Inr \<lparr> redisIsOnCF = False, client = True, subscriberClient = None,
           messageHandlers = Map.empty, server = busy_store \<rparr>"
  by (simp add: ensure_client_Redis busy_start_def reset'_def busy_store_def)

lemma busy_aborted:
  "aborted_attempts Redis json_literals ''toggle'' (\<lambda>_. Inr (JStr ''false'')) RAW 2 2 1
     (server (\<lparr> redisIsOnCF = False, client = True, subscriberClient = None,
           messageHandlers = Map.empty, server = busy_store \<rparr> :: (redis, string) wrapper))
   = Some \<lparr> store = [''toggle'' \<mapsto> ''y''], watched = [], dirty = False, others = [] \<rparr>"
  by (simp add: numeral_2_eq_2 attempt_body_def Redis_def redis_watch_def redis_get_def
        redis_exec_def arrive_def redis_write_def busy_store_def decode_old_def encode_new_def
        raw_val_def Let_def)

theorem attempt_limit_reached_witness:
  "fst (watchedGetSet' Redis json_literals ''toggle'' (\<lambda>_. Inr (JStr ''false'')) RAW 2
          busy_start)
     = Inl (VError VERROR_CLUSTER_NAME ''reached watched get set attempt limit'' []
              [(''key'', JStr ''toggle''), (''attempts'', JNum 2)] None)
   \<and> store (server (snd (watchedGetSet' Redis json_literals ''toggle''
          (\<lambda>_. Inr (JStr ''false'')) RAW 2 busy_start)))
     = [''toggle'' \<mapsto> ''y'']"
proof -
  have "store ((arrive ^^ (3 * 2)) busy_store) = [''toggle'' \<mapsto> ''y'']"
    by (simp add: eval_nat_numeral arrive_def redis_write_def busy_store_def)
  with attempt_limit_reached [OF busy_ensured busy_aborted] show ?thesis by simp
qed

lemma arrive_quiet: "others w = [] \<Longrightarrow> arrive w = w"
  by (simp add: arrive_def)

lemma redis_delete_clean:
  assumes "store w key = Some v" and "others w = []" and "\<not> dirty w"
  shows "attempt_body Redis J key (\<lambda>_. Inr JNull) RAW attempts attempt w =
           (Returned JNull,
            w\<lparr> store := (store w)(key := None), watched := [], dirty := False \<rparr>)"
  using assms
  by (simp add: attempt_body_def Redis_def redis_watch_def redis_get_def redis_exec_def
        arrive_quiet decode_old_def encode_new_def raw_val_def Let_def redis_write_def
        unexpected_replies_def)

lemma redis_delete_dirty:
  assumes "store w key = Some v" and "others w = []" and "dirty w"
  shows "attempt_body Redis J key (\<lambda>_. Inr JNull) RAW attempts attempt w =
           (Aborted, w\<lparr> watched := [], dirty := False \<rparr>)"
  using assms
  by (simp add: attempt_body_def Redis_def redis_watch_def redis_get_def redis_exec_def
        arrive_quiet decode_old_def encode_new_def raw_val_def Let_def)

lemma get_Redis_quiet:
  assumes "client s" and "others (server s) = []"
  shows "get Redis key s = (Inr (raw_val (store (server s) key)), s)"
  using assms
  unfolding get_def clientExec'_def ensure_client_Redis
  by (simp add: Redis_def redis_get_def arrive_quiet Let_def)

text \<open>
  Claim C2. On the reference store, with no other client writing meanwhile: for a key
  that exists, \<^verbatim>\<open>watchedGetSet\<close> with a callback that returns \<^verbatim>\<open>null\<close> returns \<^verbatim>\<open>null\<close>,
  the key is absent from the keyspace afterwards, and a \<^verbatim>\<open>get\<close> that follows returns
  \<^verbatim>\<open>null\<close>. The number of attempts is not zero (left out, it is 10), and not one when
  the connection still carries a watch that was written to: that first commit aborts
  and the second attempt deletes.
\<close>

theorem delete_committed:
  assumes "store (server s) key = Some v"
    and "others (server s) = []"
    and "attempts \<noteq> Some 0"
    and "client s \<and> dirty (server s) \<longrightarrow> attempts \<noteq> Some 1"
  shows "fst (watchedGetSet Redis J key (\<lambda>_. Inr JNull) attempts s) = Inr JNull
       \<and> store (server (snd (watchedGetSet Redis J key (\<lambda>_. Inr JNull) attempts s))) key = None
       \<and> fst (get Redis key (snd (watchedGetSet Redis J key (\<lambda>_. Inr JNull) attempts s)))
           = Inr JNull"
proof -
  define n where "n = (case attempts of None \<Rightarrow> 10 | Some n \<Rightarrow> n)"
  define s1 where
    "s1 = (if client s then s
           else s\<lparr> client := True, server := (server s)\<lparr> watched := [], dirty := False \<rparr> \<rparr>)"
  define w1 where "w1 = server s1"
  define w2 where "w2 = w1\<lparr> store := (store w1)(key := None), watched := [], dirty := False \<rparr>"
  have n1: "1 \<le> n" using assms(3) by (cases attempts) (auto simp: n_def)
  have ens: "ensure_client Redis s = Inr s1"
    by (simp add: ensure_client_Redis s1_def)
  have w1: "store w1 key = Some v" "others w1 = []"
    using assms(1,2) by (auto simp: w1_def s1_def)
  have cl: "client s1" by (simp add: s1_def)
  have loop: "attempt_loop Redis J key (\<lambda>_. Inr JNull) RAW n 1 w1 = (Inr JNull, w2)"
  proof (cases "dirty w1")
    case False
    show ?thesis
      using n1 by (subst loop_unfold) (simp_all add: redis_delete_clean [OF w1 False] w2_def)
  next
    case True
    then have "client s \<and> dirty (server s)" by (auto simp: w1_def s1_def split: if_splits)
    with assms(3,4) have n2: "1 + 1 \<le> n" by (cases attempts) (auto simp: n_def)
    let ?w = "w1\<lparr> watched := [], dirty := False \<rparr>"
    have c: "store ?w key = Some v" "others ?w = []" "\<not> dirty ?w" using w1 by simp_all
    have "attempt_loop Redis J key (\<lambda>_. Inr JNull) RAW n 1 w1
          = attempt_loop Redis J key (\<lambda>_. Inr JNull) RAW n (1 + 1) ?w"
      using n1 by (subst loop_unfold) (simp_all add: redis_delete_dirty [OF w1 True])
    also have "\<dots> = (Inr JNull, w2)"
      using n2 by (subst loop_unfold) (simp_all add: redis_delete_clean [OF c] w2_def)
    finally show ?thesis .
  qed
  have run: "watchedGetSet Redis J key (\<lambda>_. Inr JNull) attempts s = (Inr JNull, s1\<lparr> server := w2 \<rparr>)"
    unfolding watchedGetSet_def n_def [symmetric]
    by (rule watchedGetSet'_loop [OF ens loop [unfolded w1_def]])
  have "get Redis key (s1\<lparr> server := w2 \<rparr>) = (Inr JNull, s1\<lparr> server := w2 \<rparr>)"
    using cl w1(2) by (subst get_Redis_quiet) (simp_all add: w2_def raw_val_def)
  then show ?thesis unfolding run by (simp add: w2_def)
qed

theorem delete_committed_witness:
  "store quiet_store ''toggle'' = Some ''true''
   \<and> fst (watchedGetSet Redis json_literals ''toggle'' (\<lambda>_. Inr JNull) None
            quiet_start) = Inr JNull
   \<and> store (server (snd (watchedGetSet Redis json_literals ''toggle'' (\<lambda>_. Inr JNull) None
            quiet_start))) ''toggle'' = None
   \<and> fst (get Redis ''toggle'' (snd (watchedGetSet Redis json_literals ''toggle''
            (\<lambda>_. Inr JNull) None quiet_start))) = Inr JNull"
proof -
  have k: "store (server quiet_start) ''toggle'' = Some ''true''"
    and q: "others (server quiet_start) = []"
    and c: "client quiet_start
              \<and> dirty (server quiet_start)
            \<longrightarrow> (None :: nat option) \<noteq> Some 1"
    and a: "(None :: nat option) \<noteq> Some 0"
    by (simp_all add: quiet_start_def reset'_def quiet_store_def)
  have "store quiet_store ''toggle'' = Some ''true''" by (simp add: quiet_store_def)
  with delete_committed [OF k q a c, of json_literals] show ?thesis by simp
qed

lemma untouched_writes:
  "key \<notin> fst ` set batch \<Longrightarrow> store (foldl redis_write w batch) key = store w key"
  by (induction batch arbitrary: w) (auto simp: redis_write_def)

lemma others_writes: "others (foldl redis_write w batch) = others w"
  by (simp add: writes_data)

lemma untouched_arrive:
  assumes "\<forall>batch \<in> set (others w). key \<notin> fst ` set batch"
  shows "store (arrive w) key = store w key
       \<and> (\<forall>batch \<in> set (others (arrive w)). key \<notin> fst ` set batch)"
  using assms
  by (cases "others w") (auto simp: arrive_def untouched_writes others_writes)

text \<open>
  Claim C8. On the reference store, with no other client writing the key: for a value
  \<open>v\<close> that the JSON runtime serializes to a string which it parses back to \<open>v\<close>
  (\<^verbatim>\<open>null\<close> included, whose serialization is the string \<^verbatim>\<open>"null"\<close>), \<^verbatim>\<open>setObject(k, v)\<close>
  succeeds and the \<^verbatim>\<open>getObject(k)\<close> that follows returns \<open>v\<close>.
\<close>

theorem setObject_getObject_roundtrip:
  assumes "stringify J v = Inr (JStr str)"
    and "parse J (JStr str) = Inr v"
    and "\<forall>batch \<in> set (others (server s)). key \<notin> fst ` set batch"
  shows "fst (setObject Redis J key v s) = Inr (JStr ''OK'')
       \<and> fst (getObject Redis J key (snd (setObject Redis J key v s))) = Inr v"
proof -
  define s1 where
    "s1 = (if client s then s
           else s\<lparr> client := True, server := (server s)\<lparr> watched := [], dirty := False \<rparr> \<rparr>)"
  define w1 where "w1 = arrive (server s1)"
  define w2 where "w2 = redis_write w1 (key, Some str)"
  have quiet: "\<forall>batch \<in> set (others (server s1)). key \<notin> fst ` set batch"
    using assms(3) by (simp add: s1_def)
  have q1: "\<forall>batch \<in> set (others w1). key \<notin> fst ` set batch"
    using untouched_arrive [OF quiet] by (simp add: w1_def)
  have q2: "\<forall>batch \<in> set (others w2). key \<notin> fst ` set batch"
    using q1 by (simp add: w2_def redis_write_def)
  have stored: "store w2 key = Some str" by (simp add: w2_def redis_write_def)
  have set: "setObject Redis J key v s = (Inr (JStr ''OK''), s1\<lparr> server := w2 \<rparr>)"
    unfolding setObject_def set_key_def clientExec'_def ensure_client_Redis
    by (simp add: assms(1) Redis_def redis_set_def Let_def s1_def w1_def w2_def)
  have cl: "client (s1\<lparr> server := w2 \<rparr>)" by (simp add: s1_def)
  have "get Redis key (s1\<lparr> server := w2 \<rparr>) = (Inr (JStr str), s1\<lparr> server := arrive w2 \<rparr>)"
    unfolding get_def clientExec'_def ensure_client_Redis
    using cl untouched_arrive [OF q2] stored
    by (simp add: Redis_def redis_get_def Let_def raw_val_def)
  then have "getObject Redis J key (s1\<lparr> server := w2 \<rparr>) = (Inr v, s1\<lparr> server := arrive w2 \<rparr>)"
    by (simp add: getObject_def assms(2))
  then show ?thesis by (simp add: set)
qed

theorem setObject_getObject_roundtrip_witness:
  "stringify json_literals JNull = Inr (JStr ''null'')
   \<and> parse json_literals (JStr ''null'') = Inr JNull
   \<and> fst (setObject Redis json_literals ''toggle'' JNull quiet_start)
       = Inr (JStr ''OK'')
   \<and> fst (getObject Redis json_literals ''toggle''
            (snd (setObject Redis json_literals ''toggle'' JNull quiet_start)))
       = Inr JNull"
proof -
  have s: "stringify json_literals JNull = Inr (JStr ''null'')"
    and p: "parse json_literals (JStr ''null'') = Inr JNull"
    by (simp_all add: json_literals_def)
  have q: "\<forall>batch \<in> set (others (server quiet_start)).
             ''toggle'' \<notin> fst ` set batch"
    by (simp add: quiet_start_def reset'_def quiet_store_def)
  from setObject_getObject_roundtrip [OF s p q] s p show ?thesis by simp
qed

end
